theory Spec2Isabelle
  imports Main "HOL-Library.Word" "HOL-Library.Sublist"
begin

section \<open>Python values used by the search engine\<close>

text \<open>
  A Python \<open>str\<close> is a sequence of Unicode code points, a \<open>bytes\<close> object a sequence of
  8-bit values. \<open>x in s\<close> on two strings is the contiguous-substring test, which is
  \<^const>\<open>sublist\<close>. \<open>str\<close> turns an ASCII literal into its code points; a backslash is
  code point 92.
\<close>

type_synonym pystr = "nat list"
type_synonym byte = "8 word"

definition str :: "string \<Rightarrow> pystr" where
  "str s = map of_char s"

definition backslash :: nat where
  "backslash = 92"

text \<open>
  The exceptions the engine distinguishes. \<open>PermissionError\<close> and \<open>FileNotFoundError\<close> are
  subclasses of \<open>OSError\<close>, \<open>UnicodeDecodeError\<close> is a subclass of \<open>ValueError\<close>; everything
  here is a subclass of \<open>Exception\<close>. \<open>ValueError\<close> carries its message, \<open>re_error\<close> (the
  class \<open>re.error\<close>) the text \<open>str(e)\<close>. \<open>re.error\<close> and \<open>OverflowError\<close> are neither an
  \<open>OSError\<close> nor a \<open>ValueError\<close>.
\<close>

datatype exn =
    PermissionError
  | FileNotFoundError
  | OSError
  | UnicodeDecodeError
  | ValueError pystr
  | re_error pystr
  | OverflowError
  | OtherException

fun is_OSError :: "exn \<Rightarrow> bool" where
  "is_OSError PermissionError = True"
| "is_OSError FileNotFoundError = True"
| "is_OSError OSError = True"
| "is_OSError _ = False"

fun is_ValueError :: "exn \<Rightarrow> bool" where
  "is_ValueError UnicodeDecodeError = True"
| "is_ValueError (ValueError _) = True"
| "is_ValueError _ = False"

text \<open>
  A compiled \<open>re.Pattern\<close>: its source text (\<open>pattern.pattern\<close>) and what
  \<open>bool(pattern.search(text))\<close> gives on a text, or the exception the regex engine raises.
\<close>

record re_pattern =
  re_source :: pystr
  re_search :: "pystr \<Rightarrow> exn + bool"

section \<open>\<open>bytes.decode('utf-8', errors='ignore')\<close>\<close>

text \<open>
  Every content read of the engine decodes with \<open>errors='ignore'\<close>. The decoder emits a code
  point for each well-formed UTF-8 sequence and drops every byte that does not start one
  (a stray continuation byte, an overlong or surrogate lead, a sequence cut short).
  \<open>utf8_head b bs\<close> decodes the sequence led by \<open>b\<close> and says how many bytes of \<open>bs\<close> it used.
\<close>

definition is_cont :: "byte \<Rightarrow> bool" where
  "is_cont b = (0x80 \<le> b \<and> b \<le> 0xBF)"

definition second_ok :: "byte \<Rightarrow> byte \<Rightarrow> bool" where
  "second_ok b c =
     (if b = 0xE0 then 0xA0 \<le> c \<and> c \<le> 0xBF
      else if b = 0xED then 0x80 \<le> c \<and> c \<le> 0x9F
      else if b = 0xF0 then 0x90 \<le> c \<and> c \<le> 0xBF
      else if b = 0xF4 then 0x80 \<le> c \<and> c \<le> 0x8F
      else is_cont c)"

definition payload :: "byte \<Rightarrow> nat" where
  "payload c = unat c - 0x80"

fun utf8_head :: "byte \<Rightarrow> byte list \<Rightarrow> (nat \<times> nat) option" where
  "utf8_head b bs =
     (if b < 0x80 then Some (unat b, 0)
      else if 0xC2 \<le> b \<and> b \<le> 0xDF then
        (case bs of
           c1 # _ \<Rightarrow> if is_cont c1 then Some ((unat b - 0xC0) * 64 + payload c1, 1) else None
         | _ \<Rightarrow> None)
      else if 0xE0 \<le> b \<and> b \<le> 0xEF then
        (case bs of
           c1 # c2 # _ \<Rightarrow>
             if second_ok b c1 \<and> is_cont c2
             then Some ((unat b - 0xE0) * 4096 + payload c1 * 64 + payload c2, 2) else None
         | _ \<Rightarrow> None)
      else if 0xF0 \<le> b \<and> b \<le> 0xF4 then
        (case bs of
           c1 # c2 # c3 # _ \<Rightarrow>
             if second_ok b c1 \<and> is_cont c2 \<and> is_cont c3
             then Some ((unat b - 0xF0) * 262144 + payload c1 * 4096 + payload c2 * 64
                        + payload c3, 3)
             else None
         | _ \<Rightarrow> None)
      else None)"

text \<open>\<open>decode_from k bs\<close>: \<open>k\<close> bytes of \<open>bs\<close> belong to the sequence just decoded.\<close>

fun decode_from :: "nat \<Rightarrow> byte list \<Rightarrow> pystr" where
  "decode_from k [] = []"
| "decode_from (Suc k) (b # bs) = decode_from k bs"
| "decode_from 0 (b # bs) =
     (case utf8_head b bs of
        Some (cp, k) \<Rightarrow> cp # decode_from k bs
      | None \<Rightarrow> decode_from 0 bs)"

definition decode_ignore :: "byte list \<Rightarrow> pystr" where
  "decode_ignore bs = decode_from 0 bs"

section \<open>Dangerous patterns (\<open>FileSearchEngine._is_dangerous_pattern\<close>)\<close>

definition dangerous :: "pystr list" where
  "dangerous =
     [ str ''['' @ [backslash] @ str ''s'' @ [backslash] @ str ''S]*'',
       str ''['' @ [backslash] @ str ''s'' @ [backslash] @ str ''S]+'',
       str ''['' @ [backslash] @ str ''w'' @ [backslash] @ str ''W]*'',
       str ''['' @ [backslash] @ str ''w'' @ [backslash] @ str ''W]+'',
       str ''['' @ [backslash] @ str ''d'' @ [backslash] @ str ''D]*'',
       str ''['' @ [backslash] @ str ''d'' @ [backslash] @ str ''D]+'',
       str ''.*?'', str ''.+?'' ]"

text \<open>The \<open>for danger in dangerous\<close> loop, returning at the first shape found.\<close>

fun danger_loop :: "pystr list \<Rightarrow> pystr \<Rightarrow> bool" where
  "danger_loop [] pattern_str = False"
| "danger_loop (danger # rest) pattern_str =
     (if sublist danger pattern_str then True else danger_loop rest pattern_str)"

definition is_dangerous_pattern :: "re_pattern \<Rightarrow> bool" where
  "is_dangerous_pattern pat = danger_loop dangerous (re_source pat)"

section \<open>The file system and the libraries, as the engine sees them\<close>

text \<open>
  Every call the engine makes into the operating system or a library is a field of
  \<open>world\<close>: a call that can raise returns a sum, \<open>Inl\<close> the exception.
  \<open>os_stat\<close> gives \<open>(st_size, st_mtime)\<close>; \<open>open_rb\<close> gives the bytes an
  \<open>open(path, 'rb')\<close> handle reads; \<open>mmap_file\<close> is the exception \<open>mmap.mmap\<close> raises, if any;
  \<open>re_compile pattern ignorecase\<close> is \<open>re.compile\<close>, which raises \<open>re.error\<close> on a syntax
  error and may raise something else (\<open>OverflowError\<close> on a repeat count beyond the
  engine's limit);
  \<open>walked_files root\<close> is the list \<open>files_to_check\<close> that the \<open>os.walk\<close> loop of \<open>search\<close>
  collects.
\<close>

record world =
  os_path_isfile :: "pystr \<Rightarrow> bool"
  os_path_basename :: "pystr \<Rightarrow> pystr"
  os_path_splitext :: "pystr \<Rightarrow> pystr \<times> pystr"
  str_lower :: "pystr \<Rightarrow> pystr"
  fnmatch :: "pystr \<Rightarrow> pystr \<Rightarrow> bool"
  os_stat :: "pystr \<Rightarrow> exn + (nat \<times> int)"
  fromtimestamp :: "int \<Rightarrow> exn + int"
  os_path_getsize :: "pystr \<Rightarrow> exn + nat"
  open_rb :: "pystr \<Rightarrow> exn + byte list"
  mmap_file :: "pystr \<Rightarrow> exn option"
  re_compile :: "pystr \<Rightarrow> bool \<Rightarrow> exn + re_pattern"
  walked_files :: "pystr \<Rightarrow> pystr list"

text \<open>\<open>xs[start:end]\<close> for \<open>0 \<le> start\<close> and \<open>0 \<le> end\<close>; \<open>range(0, stop, step)\<close> for \<open>0 < step\<close>.\<close>

definition py_slice :: "'a list \<Rightarrow> nat \<Rightarrow> nat \<Rightarrow> 'a list" where
  "py_slice xs start end_pos = take (end_pos - start) (drop start xs)"

definition py_range :: "nat \<Rightarrow> nat \<Rightarrow> nat list" where
  "py_range stop step = map (\<lambda>k. k * step) [0..<(stop + step - 1) div step]"

text \<open>\<open>bool(pattern.search(text))\<close> inside a \<open>try\<close> whose handler returns \<open>False\<close>.\<close>

definition search_or_false :: "re_pattern \<Rightarrow> pystr \<Rightarrow> bool" where
  "search_or_false pat text = (case re_search pat text of Inr b \<Rightarrow> b | Inl e \<Rightarrow> False)"

section \<open>The GPU engine (\<open>gpu_search_engine.py\<close>)\<close>

text \<open>
  \<open>GPUSearchConfig\<close>, the module flags and the matcher's \<open>gpu_available\<close>, with the two device
  computations as fields: \<open>cupy_device text substring\<close> is the \<open>try\<close> block of
  \<open>_literal_search_gpu\<close> and \<open>cuda_device\<close> that of \<open>_run_cuda_kernel\<close>, \<open>Inl\<close> when it
  raises. The \<open>stats\<close> counters do not influence any result and are left out.
\<close>

record hybrid_engine =
  cfg_use_gpu :: bool
  min_file_size_for_gpu :: nat
  max_pattern_complexity :: nat
  gpu_available :: bool
  USE_CUPY :: bool
  USE_NUMBA :: bool
  cupy_device :: "pystr \<Rightarrow> pystr \<Rightarrow> exn + bool"
  cuda_device :: "pystr \<Rightarrow> pystr \<Rightarrow> exn + bool"

definition unfriendly_shapes :: "pystr list" where
  "unfriendly_shapes =
     [ [backslash] @ str ''1'', [backslash] @ str ''2'', str ''(?='', str ''(?!'', str ''(?<'',
       str ''(?('', [backslash] @ str ''g<'' ]"

definition is_pattern_gpu_friendly :: "hybrid_engine \<Rightarrow> pystr \<Rightarrow> bool" where
  "is_pattern_gpu_friendly h pattern =
     (if list_ex (\<lambda>x. sublist x pattern) unfriendly_shapes then False
      else
        (let complexity =
               count_list pattern (of_char CHR ''('') + count_list pattern (of_char CHR ''['')
               + count_list pattern (of_char CHR ''{'') + count_list pattern backslash div 2
         in complexity \<le> max_pattern_complexity h))"

definition search_cpu :: "byte list \<Rightarrow> re_pattern \<Rightarrow> bool" where
  "search_cpu text pat = search_or_false pat (decode_ignore text)"

definition special_chars :: pystr where
  "special_chars = str ''.*+?[]{}()^$|'' @ [backslash, backslash]"

definition is_literal_pattern :: "pystr \<Rightarrow> bool" where
  "is_literal_pattern pattern = (\<not> list_ex (\<lambda>c. c \<in> set pattern) special_chars)"

definition literal_search_gpu :: "hybrid_engine \<Rightarrow> pystr \<Rightarrow> pystr \<Rightarrow> bool" where
  "literal_search_gpu h text substring =
     (case cupy_device h text substring of
        Inr found \<Rightarrow> found
      | Inl e \<Rightarrow> sublist substring text)"

definition search_cupy :: "hybrid_engine \<Rightarrow> byte list \<Rightarrow> re_pattern \<Rightarrow> bool" where
  "search_cupy h text pat =
     (let text_str = decode_ignore text; pattern_str = re_source pat
      in if is_literal_pattern pattern_str then literal_search_gpu h text_str pattern_str
         else search_cpu text pat)"

definition run_cuda_kernel :: "hybrid_engine \<Rightarrow> pystr \<Rightarrow> pystr \<Rightarrow> bool" where
  "run_cuda_kernel h text pattern =
     (if \<not> USE_NUMBA h then False
      else (case cuda_device h text pattern of Inr found \<Rightarrow> found | Inl e \<Rightarrow> False))"

definition search_numba :: "hybrid_engine \<Rightarrow> byte list \<Rightarrow> re_pattern \<Rightarrow> bool" where
  "search_numba h text pat =
     (let text_str = decode_ignore text; pattern_str = re_source pat
      in if is_literal_pattern pattern_str then run_cuda_kernel h text_str pattern_str
         else search_cpu text pat)"

text \<open>
  \<open>GPUPatternMatcher.search_in_text_gpu\<close>. The routines it calls catch every exception
  themselves, so its own handler (fall back to \<open>_search_cpu\<close>) has nothing left to catch.
\<close>

definition search_in_text_gpu :: "hybrid_engine \<Rightarrow> byte list \<Rightarrow> re_pattern \<Rightarrow> bool" where
  "search_in_text_gpu h text pat =
     (if \<not> gpu_available h \<or> length text < min_file_size_for_gpu h then search_cpu text pat
      else if \<not> is_pattern_gpu_friendly h (re_source pat) then search_cpu text pat
      else if USE_CUPY h then search_cupy h text pat
      else if USE_NUMBA h then search_numba h text pat
      else search_cpu text pat)"

text \<open>
  \<open>HybridSearchEngine.search_in_file\<close>: the body of its \<open>try\<close>, then the handler, which
  catches \<open>PermissionError\<close>, \<open>OSError\<close>, \<open>UnicodeDecodeError\<close> and \<open>ValueError\<close> only.
  For a file under 1 MiB that the first \<open>read(8192)\<close> did not exhaust, \<open>f.read()\<close> continues
  from byte 8192.
\<close>

definition hybrid_try :: "hybrid_engine \<Rightarrow> world \<Rightarrow> pystr \<Rightarrow> re_pattern \<Rightarrow> exn + bool" where
  "hybrid_try h w file_path pat =
     (case os_path_getsize w file_path of
        Inl e \<Rightarrow> Inl e
      | Inr file_size \<Rightarrow>
          if file_size > 100 * 1024 * 1024 then Inr False
          else
            (let use_gpu = (cfg_use_gpu h \<and> file_size \<ge> min_file_size_for_gpu h
                            \<and> gpu_available h)
             in case open_rb w file_path of
                  Inl e \<Rightarrow> Inl e
                | Inr data \<Rightarrow>
                    (let chunk = take 8192 data
                     in if 0 \<in> set chunk then Inr False
                        else if file_size < 1024 * 1024 then
                          (let text = (if length chunk = file_size then chunk
                                       else drop 8192 data)
                           in Inr (search_or_false pat (decode_ignore text)))
                        else
                          (case mmap_file w file_path of
                             Some e \<Rightarrow> Inl e
                           | None \<Rightarrow>
                               if use_gpu then Inr (search_in_text_gpu h data pat)
                               else Inr (search_or_false pat (decode_ignore data))))))"

definition hybrid_search_in_file ::
  "hybrid_engine \<Rightarrow> world \<Rightarrow> pystr \<Rightarrow> re_pattern \<Rightarrow> exn + bool" where
  "hybrid_search_in_file h w file_path pat =
     (case hybrid_try h w file_path pat of
        Inl e \<Rightarrow> if is_OSError e \<or> is_ValueError e then Inr False else Inl e
      | Inr found \<Rightarrow> Inr found)"

section \<open>The content scan (\<open>FileSearchEngine._search_in_file\<close>)\<close>

text \<open>The engine object: the stop flag as a check reads it, and the GPU switch.\<close>

record engine =
  stop_flag :: bool
  use_gpu :: bool
  gpu_engine :: "hybrid_engine option"

text \<open>
  \<open>Applied start end\<close> records that the pattern was applied to the decoded bytes
  \<open>[start, end)\<close> of the file.
\<close>

datatype scan_event = Applied nat nat

text \<open>The \<open>for offset in range(0, file_size, chunk_size)\<close> loop over the mapped file.\<close>

fun chunk_loop ::
  "engine \<Rightarrow> re_pattern \<Rightarrow> byte list \<Rightarrow> nat \<Rightarrow> nat \<Rightarrow> nat list \<Rightarrow> scan_event list \<times> bool" where
  "chunk_loop eng pat mmapped file_size chunk_size [] = ([], False)"
| "chunk_loop eng pat mmapped file_size chunk_size (offset # rest) =
     (if stop_flag eng then ([], False)
      else
        (let overlap = 1024;
             start = nat (max 0 (int offset - int overlap));
             end_pos = min file_size (offset + chunk_size);
             chunk_bytes = py_slice mmapped start end_pos;
             text = decode_ignore chunk_bytes
         in case re_search pat text of
              Inr True \<Rightarrow> ([Applied start end_pos], True)
            | _ \<Rightarrow>
                (case chunk_loop eng pat mmapped file_size chunk_size rest of
                   (events, found) \<Rightarrow> (Applied start end_pos # events, found))))"

text \<open>
  The CPU part of \<open>_search_in_file\<close> (from \<open>os.path.getsize\<close> on), with the exceptions that
  reach the function's handlers still visible.
\<close>

definition cpu_scan ::
  "engine \<Rightarrow> world \<Rightarrow> pystr \<Rightarrow> re_pattern \<Rightarrow> exn + scan_event list \<times> bool" where
  "cpu_scan eng w file_path pat =
     (case os_path_getsize w file_path of
        Inl e \<Rightarrow> Inl e
      | Inr file_size \<Rightarrow>
          if file_size > 100 * 1024 * 1024 then Inr ([], False)
          else
            (case open_rb w file_path of
               Inl e \<Rightarrow> Inl e
             | Inr data \<Rightarrow>
                 (let chunk = take 8192 data
                  in if 0 \<in> set chunk then Inr ([], False)
                     else if length chunk < 8192 then
                       Inr ([Applied 0 (length chunk)],
                            search_or_false pat (decode_ignore chunk))
                     else
                       (let safe_limit = (if is_dangerous_pattern pat then 1 * 1024 * 1024
                                          else 5 * 1024 * 1024)
                        in if file_size \<le> safe_limit then
                             (case open_rb w file_path of
                                Inl e \<Rightarrow> Inl e
                              | Inr content \<Rightarrow>
                                  if stop_flag eng then Inr ([], False)
                                  else Inr ([Applied 0 (length content)],
                                            search_or_false pat (decode_ignore content)))
                           else
                             (case open_rb w file_path of
                                Inl e \<Rightarrow> Inl e
                              | Inr mmapped \<Rightarrow>
                                  (case mmap_file w file_path of
                                     Some e \<Rightarrow> Inl e
                                   | None \<Rightarrow>
                                       (let chunk_size =
                                              (if is_dangerous_pattern pat then 512 * 1024
                                               else 5 * 1024 * 1024)
                                        in Inr (chunk_loop eng pat mmapped file_size chunk_size
                                                  (py_range file_size chunk_size)))))))))"

text \<open>
  \<open>_search_in_file\<close>: the stop check, the GPU branch, the CPU scan, and the two handlers,
  which together turn every exception into \<open>False\<close>.
\<close>

definition search_in_file :: "engine \<Rightarrow> world \<Rightarrow> pystr \<Rightarrow> re_pattern \<Rightarrow> bool" where
  "search_in_file eng w file_path pat =
     (if stop_flag eng then False
      else
        (case (if use_gpu eng then gpu_engine eng else None) of
           Some h \<Rightarrow>
             (case hybrid_search_in_file h w file_path pat of
                Inl e \<Rightarrow> False
              | Inr found \<Rightarrow> found)
         | None \<Rightarrow>
             (case cpu_scan eng w file_path pat of
                Inl e \<Rightarrow> False
              | Inr (events, found) \<Rightarrow> found)))"

section \<open>The per-file check (\<open>FileSearchEngine._check_file\<close>)\<close>

text \<open>
  The filter parameters that \<open>search\<close> hands to every \<open>_check_file\<close> call. A parameter that
  may be \<open>None\<close> is an option; \<open>min_size\<close> defaults to \<open>0\<close>. Dates are points on the integer
  time line. The two compiled patterns are passed beside this record.
\<close>

record criteria =
  name_pattern :: pystr
  extensions :: "pystr list option"
  min_size :: int
  max_size :: "int option"
  modified_after :: "int option"
  modified_before :: "int option"
  case_sensitive :: bool
  use_regex_name :: bool

text \<open>The dataclass \<open>SearchResult\<close> (\<open>path\<close>, \<open>size\<close>, \<open>modified\<close>, \<open>match_reason\<close>).\<close>

record search_result =
  sr_path :: pystr
  sr_size :: nat
  sr_modified :: int
  sr_match_reason :: pystr

text \<open>The two reasons, as the code points of the source's Russian literals.\<close>

definition reason_name :: pystr where
  "reason_name = [1048, 1084, 1103, 32, 1092, 1072, 1081, 1083, 1072]"

definition reason_content :: pystr where
  "reason_content =
     [1057, 1086, 1076, 1077, 1088, 1078, 1080, 1084, 1086, 1077, 32, 1092, 1072, 1081, 1083,
      1072]"

text \<open>\<open>s.strip('.')\<close>.\<close>

definition strip_dots :: "pystr \<Rightarrow> pystr" where
  "strip_dots s =
     rev (dropWhile (\<lambda>c. c = of_char CHR ''.'') (rev (dropWhile (\<lambda>c. c = of_char CHR ''.'') s)))"

text \<open>
  The four cheap checks, each \<open>True\<close> where the source goes on and \<open>False\<close> where it returns
  \<open>None\<close>. A regex search of the name may raise.
\<close>

definition name_check :: "world \<Rightarrow> criteria \<Rightarrow> re_pattern option \<Rightarrow> pystr \<Rightarrow> exn + bool" where
  "name_check w c name_regex filename =
     (case (if use_regex_name c then name_regex else None) of
        Some rx \<Rightarrow> re_search rx filename
      | None \<Rightarrow>
          if name_pattern c \<noteq> str ''*'' then
            (if case_sensitive c then Inr (fnmatch w filename (name_pattern c))
             else Inr (fnmatch w (str_lower w filename) (str_lower w (name_pattern c))))
          else Inr True)"

definition ext_check :: "world \<Rightarrow> criteria \<Rightarrow> pystr \<Rightarrow> bool" where
  "ext_check w c filename =
     (case extensions c of
        None \<Rightarrow> True
      | Some [] \<Rightarrow> True
      | Some exts \<Rightarrow>
          (let file_ext = strip_dots (str_lower w (snd (os_path_splitext w filename)))
           in file_ext \<in> set exts))"

definition size_check :: "criteria \<Rightarrow> nat \<Rightarrow> bool" where
  "size_check c file_size =
     (if min_size c \<noteq> 0 \<and> int file_size < min_size c then False
      else if (case max_size c of None \<Rightarrow> False | Some m \<Rightarrow> m \<noteq> 0 \<and> int file_size > m)
      then False
      else True)"

definition date_check :: "criteria \<Rightarrow> int \<Rightarrow> bool" where
  "date_check c file_modified =
     (if (case modified_after c of None \<Rightarrow> False | Some d \<Rightarrow> file_modified < d) then False
      else if (case modified_before c of None \<Rightarrow> False | Some d \<Rightarrow> file_modified > d)
      then False
      else True)"

text \<open>The body of the \<open>try\<close> of \<open>_check_file\<close>.\<close>

definition check_try ::
  "engine \<Rightarrow> world \<Rightarrow> pystr \<Rightarrow> re_pattern option \<Rightarrow> re_pattern option \<Rightarrow> criteria
     \<Rightarrow> exn + search_result option" where
  "check_try eng w file_path name_regex content_pattern c =
     (if stop_flag eng then Inr None
      else if \<not> os_path_isfile w file_path then Inr None
      else
        (let filename = os_path_basename w file_path
         in case name_check w c name_regex filename of
              Inl e \<Rightarrow> Inl e
            | Inr False \<Rightarrow> Inr None
            | Inr True \<Rightarrow>
                if \<not> ext_check w c filename then Inr None
                else
                  (case os_stat w file_path of
                     Inl e \<Rightarrow> Inl e
                   | Inr (file_size, st_mtime) \<Rightarrow>
                       (case fromtimestamp w st_mtime of
                          Inl e \<Rightarrow> Inl e
                        | Inr file_modified \<Rightarrow>
                            if \<not> size_check c file_size then Inr None
                            else if \<not> date_check c file_modified then Inr None
                            else
                              (case content_pattern of
                                 None \<Rightarrow>
                                   Inr (Some \<lparr>sr_path = file_path, sr_size = file_size,
                                              sr_modified = file_modified,
                                              sr_match_reason = reason_name\<rparr>)
                               | Some pat \<Rightarrow>
                                   if \<not> search_in_file eng w file_path pat then Inr None
                                   else
                                     Inr (Some \<lparr>sr_path = file_path, sr_size = file_size,
                                                sr_modified = file_modified,
                                                sr_match_reason = reason_content\<rparr>))))))"

text \<open>\<open>_check_file\<close>: \<open>except (PermissionError, OSError): return None\<close>; anything else is raised.\<close>

definition check_file ::
  "engine \<Rightarrow> world \<Rightarrow> pystr \<Rightarrow> re_pattern option \<Rightarrow> re_pattern option \<Rightarrow> criteria
     \<Rightarrow> exn + search_result option" where
  "check_file eng w file_path name_regex content_pattern c =
     (case check_try eng w file_path name_regex content_pattern c of
        Inl e \<Rightarrow> if is_OSError e then Inr None else Inl e
      | Inr r \<Rightarrow> Inr r)"

section \<open>The coordinator (\<open>FileSearchEngine.search\<close>)\<close>

text \<open>
  What one run leaves to the scheduler and to the thread that may call \<open>stop()\<close>:
  the order in which \<open>as_completed\<close> yields the futures, the stop flag as the worker of each
  file reads it, and the stop flag as the collecting loop reads it when \<open>processed\<close>
  completions have been counted.
\<close>

record schedule =
  as_completed :: "pystr list \<Rightarrow> pystr list"
  stop_in_worker :: "pystr \<Rightarrow> bool"
  stop_in_loop :: "nat \<Rightarrow> bool"

text \<open>What the caller can observe of a run, in order.\<close>

datatype event =
    Walk pystr
  | Submit pystr
  | Callback "search_result option" nat nat

text \<open>\<open>str.isspace\<close> for one code point, and the truth value of \<open>ext.strip()\<close>.\<close>

definition py_isspace :: "nat \<Rightarrow> bool" where
  "py_isspace c =
     ((9 \<le> c \<and> c \<le> 13) \<or> (28 \<le> c \<and> c \<le> 32) \<or> c = 133 \<or> c = 160 \<or> c = 5760
      \<or> (8192 \<le> c \<and> c \<le> 8202) \<or> c = 8232 \<or> c = 8233 \<or> c = 8239 \<or> c = 8287
      \<or> c = 12288)"

definition normalize_extensions :: "world \<Rightarrow> pystr list option \<Rightarrow> pystr list option" where
  "normalize_extensions w exts =
     (case exts of
        None \<Rightarrow> None
      | Some [] \<Rightarrow> Some []
      | Some es \<Rightarrow>
          Some (map (\<lambda>ext. strip_dots (str_lower w ext))
                  (filter (\<lambda>ext. list_ex (\<lambda>ch. \<not> py_isspace ch) ext) es)))"

definition content_error_prefix :: pystr where
  "content_error_prefix =
     [1054, 1096, 1080, 1073, 1082, 1072, 32, 1074, 32, 1088, 1077, 1075, 1091, 1083, 1103,
      1088, 1085, 1086, 1084, 32, 1074, 1099, 1088, 1072, 1078, 1077, 1085, 1080, 1080, 58, 32]"

definition name_error_prefix :: pystr where
  "name_error_prefix =
     [1054, 1096, 1080, 1073, 1082, 1072, 32, 1074, 32, 1088, 1077, 1075, 1091, 1083, 1103,
      1088, 1085, 1086, 1084, 32, 1074, 1099, 1088, 1072, 1078, 1077, 1085, 1080, 1080, 32,
      1080, 1084, 1077, 1085, 1080, 58, 32]"

text \<open>
  \<open>except re.error as e: raise ValueError(f"<prefix>{e}")\<close>: the exception that leaves the
  \<open>try\<close> when \<open>re.compile\<close> raised \<open>e\<close>. Only \<open>re.error\<close> is caught.
\<close>

fun reraise_re_error :: "pystr \<Rightarrow> exn \<Rightarrow> exn" where
  "reraise_re_error text (re_error msg) = ValueError (text @ msg)"
| "reraise_re_error text e = e"

text \<open>
  The two \<open>re.compile\<close> steps at the head of \<open>search\<close>: \<open>Inl\<close> is the exception raised,
  \<open>Inr\<close> the pair \<open>(content_pattern, name_regex)\<close>.
\<close>

definition compile_patterns ::
  "world \<Rightarrow> criteria \<Rightarrow> pystr option \<Rightarrow> exn + re_pattern option \<times> re_pattern option" where
  "compile_patterns w c content_regex =
     (case (case content_regex of
              None \<Rightarrow> Inr None
            | Some [] \<Rightarrow> Inr None
            | Some rx \<Rightarrow>
                (case re_compile w rx (\<not> case_sensitive c) of
                   Inl e \<Rightarrow> Inl (reraise_re_error content_error_prefix e)
                 | Inr pat \<Rightarrow> Inr (Some pat))) of
        Inl e \<Rightarrow> Inl e
      | Inr content_pattern \<Rightarrow>
          if use_regex_name c \<and> name_pattern c \<noteq> str ''*'' then
            (case re_compile w (name_pattern c) (\<not> case_sensitive c) of
               Inl e \<Rightarrow> Inl (reraise_re_error name_error_prefix e)
             | Inr pat \<Rightarrow> Inr (content_pattern, Some pat))
          else Inr (content_pattern, None))"

text \<open>
  The \<open>for future in as_completed(futures)\<close> loop: \<open>callback\<close> says whether a callback was
  given, \<open>processed\<close> is the counter, a future is what its \<open>_check_file\<close> call returned or
  raised. It gives the results appended and the callback invocations made.
\<close>

fun collect ::
  "schedule \<Rightarrow> bool \<Rightarrow> nat \<Rightarrow> nat \<Rightarrow> (exn + search_result option) list
     \<Rightarrow> search_result list \<times> event list" where
  "collect sch callback total_files processed [] = ([], [])"
| "collect sch callback total_files processed (future # rest) =
     (if stop_in_loop sch processed then ([], [])
      else
        (let found = (case future of Inr (Some result) \<Rightarrow> [result] | _ \<Rightarrow> []);
             told = (if callback then map (\<lambda>result. Callback (Some result) processed total_files)
                                        found
                     else []);
             processed' = processed + 1;
             beat = (if callback \<and> processed' mod 100 = 0
                     then [Callback None processed' total_files] else [])
         in case collect sch callback total_files processed' rest of
              (results, events) \<Rightarrow> (found @ results, told @ beat @ events)))"

text \<open>
  \<open>search\<close>: the events of the run and either the exception raised or the list returned.
  Each worker runs \<open>_check_file\<close> with the stop flag as it reads it.
\<close>

definition search ::
  "engine \<Rightarrow> world \<Rightarrow> schedule \<Rightarrow> pystr \<Rightarrow> criteria \<Rightarrow> pystr option \<Rightarrow> bool
     \<Rightarrow> event list \<times> (exn + search_result list)" where
  "search eng w sch root_path c content_regex callback =
     (case compile_patterns w c content_regex of
        Inl e \<Rightarrow> ([], Inl e)
      | Inr (content_pattern, name_regex) \<Rightarrow>
          (let c' = c\<lparr>extensions := normalize_extensions w (extensions c)\<rparr>;
               files_to_check = walked_files w root_path;
               total_files = length files_to_check;
               futures = map (\<lambda>file_path.
                                check_file (eng\<lparr>stop_flag := stop_in_worker sch file_path\<rparr>) w
                                  file_path name_regex content_pattern c')
                           (as_completed sch files_to_check)
           in case collect sch callback total_files 0 futures of
                (results, events) \<Rightarrow>
                  (Walk root_path # map Submit files_to_check @ events, Inr results)))"

section \<open>Example inputs\<close>

text \<open>
  A pattern without special characters, compiled case-sensitively: it finds exactly the
  texts that contain it. \<open>ascii\<close> gives the bytes of an ASCII literal.
\<close>

definition literal_pattern :: "pystr \<Rightarrow> re_pattern" where
  "literal_pattern s = \<lparr>re_source = s, re_search = (\<lambda>text. Inr (sublist s text))\<rparr>"

definition ascii :: "string \<Rightarrow> byte list" where
  "ascii s = map of_char s"

text \<open>
  A file system with one regular file, whose bytes are \<open>data\<close>, under every path; names are
  matched literally, and \<open>re.compile\<close> rejects the pattern \<open>(\<close>.
\<close>

definition one_file_world :: "byte list \<Rightarrow> world" where
  "one_file_world data =
     \<lparr>os_path_isfile = (\<lambda>p. True),
      os_path_basename = (\<lambda>p. p),
      os_path_splitext = (\<lambda>p. (p, [])),
      str_lower = (\<lambda>s. s),
      fnmatch = (\<lambda>name pat. name = pat),
      os_stat = (\<lambda>p. Inr (length data, 0)),
      fromtimestamp = (\<lambda>t. Inr t),
      os_path_getsize = (\<lambda>p. Inr (length data)),
      open_rb = (\<lambda>p. Inr data),
      mmap_file = (\<lambda>p. None),
      re_compile = (\<lambda>s ignorecase.
         if s = str ''(''
         then Inl (re_error (str ''missing ), unterminated subpattern at position 0''))
         else Inr (literal_pattern s)),
      walked_files = (\<lambda>root. [str ''a.txt''])\<rparr>"

definition cpu_engine :: engine where
  "cpu_engine = \<lparr>stop_flag = False, use_gpu = False, gpu_engine = None\<rparr>"

definition any_file :: criteria where
  "any_file =
     \<lparr>name_pattern = str ''*'', extensions = None, min_size = 0, max_size = None,
      modified_after = None, modified_before = None, case_sensitive = False,
      use_regex_name = False\<rparr>"

definition in_order :: schedule where
  "in_order =
     \<lparr>as_completed = (\<lambda>files. files), stop_in_worker = (\<lambda>p. False),
      stop_in_loop = (\<lambda>n. False)\<rparr>"

text \<open>A file that starts with a NUL byte and holds \<open>hello\<close> after its first 8 KiB.\<close>

definition nul_then_hello :: "byte list" where
  "nul_then_hello = 0 # replicate 8191 0x61 @ ascii ''hello''"

section \<open>The claims' vocabulary\<close>

text \<open>
  What a future contributes to \<open>results\<close>, and the callback invocations the protocol asks
  for when the \<open>i\<close>-th completion (counting from 0) is collected: one for its result, if
  it has one, with the count of completions before it, and a heartbeat with \<open>None\<close> when it
  is a 100th completion.
\<close>

definition results_of :: "exn + search_result option \<Rightarrow> search_result list" where
  "results_of future = (case future of Inr (Some result) \<Rightarrow> [result] | _ \<Rightarrow> [])"

definition callbacks_for :: "nat \<Rightarrow> nat \<Rightarrow> exn + search_result option \<Rightarrow> event list" where
  "callbacks_for total_files i future =
     map (\<lambda>result. Callback (Some result) i total_files) (results_of future)
     @ (if (i + 1) mod 100 = 0 then [Callback None (i + 1) total_files] else [])"






text \<open>
  The conjunction of the filter predicates: a regular file, whose name, extension, size
  and modification time pass, and whose content matches when a content pattern is given.
\<close>

definition passes_filters ::
  "engine \<Rightarrow> world \<Rightarrow> pystr \<Rightarrow> re_pattern option \<Rightarrow> re_pattern option \<Rightarrow> criteria \<Rightarrow> bool" where
  "passes_filters eng w file_path name_regex content_pattern c =
     (os_path_isfile w file_path
      \<and> name_check w c name_regex (os_path_basename w file_path) = Inr True
      \<and> ext_check w c (os_path_basename w file_path)
      \<and> (case os_stat w file_path of
            Inl e \<Rightarrow> False
          | Inr (file_size, st_mtime) \<Rightarrow>
              (case fromtimestamp w st_mtime of
                 Inl e \<Rightarrow> False
               | Inr file_modified \<Rightarrow> size_check c file_size \<and> date_check c file_modified))
      \<and> (case content_pattern of
            None \<Rightarrow> True
          | Some pat \<Rightarrow> search_in_file eng w file_path pat))"

text \<open>An engine whose stop flag is set, and a run in which the collecting loop sees it set.\<close>

definition stopped_engine :: engine where
  "stopped_engine = \<lparr>stop_flag = True, use_gpu = False, gpu_engine = None\<rparr>"

definition stopped_after_dispatch :: schedule where
  "stopped_after_dispatch =
     \<lparr>as_completed = (\<lambda>files. files), stop_in_worker = (\<lambda>p. False),
      stop_in_loop = (\<lambda>n. True)\<rparr>"

text \<open>The result for the one file of \<open>one_file_world (ascii ''hello'')\<close>, matched by name.\<close>

definition hello_result :: search_result where
  "hello_result =
     \<lparr>sr_path = str ''a.txt'', sr_size = 5, sr_modified = 0, sr_match_reason = reason_name\<rparr>"

text \<open>A file system in which \<open>os.stat\<close> is denied.\<close>

definition locked_world :: world where
  "locked_world = (one_file_world (ascii ''hello''))\<lparr>os_stat := (\<lambda>p. Inl PermissionError)\<rparr>"

text \<open>
  The tier parameters in the words of the specification: the safe full-read threshold,
  the chunk size, and the byte range of chunk \<open>k\<close> of a file of \<open>file_size\<close> bytes, which
  starts 1024 bytes before its nominal offset \<open>k * chunk_size\<close>.
\<close>

definition safe_full_read_threshold :: "re_pattern \<Rightarrow> nat" where
  "safe_full_read_threshold pat = (if is_dangerous_pattern pat then 1048576 else 5242880)"

definition scan_chunk_size :: "re_pattern \<Rightarrow> nat" where
  "scan_chunk_size pat = (if is_dangerous_pattern pat then 524288 else 5242880)"

definition chunk_event :: "nat \<Rightarrow> nat \<Rightarrow> nat \<Rightarrow> scan_event" where
  "chunk_event file_size chunk_size k =
     Applied (k * chunk_size - 1024) (min file_size (k * chunk_size + chunk_size))"

text \<open>The bytes \<open>ab\<close>, \<open>0xFF\<close>, \<open>cd\<close>: an invalid byte between two text fragments.\<close>

definition broken_utf8 :: "byte list" where
  "broken_utf8 = ascii ''ab'' @ [0xFF] @ ascii ''cd''"


text \<open>
  A file of 5 MiB + 3 bytes: the letter \<open>a\<close> up to two bytes before offset 5 MiB, then
  \<open>hello\<close>, which so spans the byte offsets \<open>chunk_size - 2\<close> to \<open>chunk_size + 2\<close>.
\<close>

definition boundary_file :: "byte list" where
  "boundary_file = replicate 5242878 0x61 @ ascii ''hello''"

text \<open>
  The regex \<open>(?<=a{1100})hello\<close>, compiled case-sensitively: it finds \<open>hello\<close> where 1100
  letters \<open>a\<close> stand before it, that is, it finds exactly the texts containing
  \<open>a\<close> 1100 times and then \<open>hello\<close>; the match itself is the five letters \<open>hello\<close>.
\<close>

definition lookbehind_pattern :: re_pattern where
  "lookbehind_pattern =
     \<lparr>re_source = str ''(?<=a{1100})hello'',
      re_search = (\<lambda>text. Inr (sublist (replicate 1100 97 @ str ''hello'') text))\<rparr>"






text \<open>
  The number of completions the collecting loop collects when \<open>remaining\<close> futures are
  still to come and the counter stands at \<open>processed\<close>: the loop leaves at the first
  iteration that sees the stop flag set.
\<close>

fun collected :: "schedule \<Rightarrow> nat \<Rightarrow> nat \<Rightarrow> nat" where
  "collected sch processed 0 = 0"
| "collected sch processed (Suc remaining) =
     (if stop_in_loop sch processed then 0
      else Suc (collected sch (Suc processed) remaining))"

text \<open>
  What the future of \<open>file_path\<close> holds: the worker's \<open>_check_file\<close> call, with the extensions
  as \<open>search\<close> normalized them.
\<close>

definition worker_result ::
  "engine \<Rightarrow> world \<Rightarrow> schedule \<Rightarrow> criteria \<Rightarrow> re_pattern option \<Rightarrow> re_pattern option \<Rightarrow> pystr
     \<Rightarrow> exn + search_result option" where
  "worker_result eng w sch c name_regex content_pattern file_path =
     check_file (eng\<lparr>stop_flag := stop_in_worker sch file_path\<rparr>) w file_path name_regex
       content_pattern (c\<lparr>extensions := normalize_extensions w (extensions c)\<rparr>)"

text \<open>A run in which \<open>stop()\<close> is called after the first completion was collected.\<close>

definition stopped_after_one :: schedule where
  "stopped_after_one =
     \<lparr>as_completed = (\<lambda>files. files), stop_in_worker = (\<lambda>p. False),
      stop_in_loop = (\<lambda>n. 1 \<le> n)\<rparr>"

text \<open>
  Two files \<open>a.txt\<close> and \<open>b.txt\<close> holding \<open>hello\<close>; \<open>os.stat\<close> is denied on \<open>a.txt\<close>. The
  result for \<open>b.txt\<close>, matched by name.
\<close>

definition two_file_world :: world where
  "two_file_world =
     (one_file_world (ascii ''hello''))
       \<lparr>os_stat := (\<lambda>p. if p = str ''a.txt'' then Inl PermissionError else Inr (5, 0)),
        walked_files := (\<lambda>root. [str ''a.txt'', str ''b.txt''])\<rparr>"

definition b_result :: search_result where
  "b_result =
     \<lparr>sr_path = str ''b.txt'', sr_size = 5, sr_modified = 0, sr_match_reason = reason_name\<rparr>"

section \<open>The decoder keeps what is well formed\<close>

lemma ascii_not_cont: "b < 0x80 \<Longrightarrow> \<not> is_cont b"
  by (auto simp: is_cont_def)

lemma second_ok_cont: "second_ok b c \<Longrightarrow> is_cont c"
  by (auto simp: second_ok_def is_cont_def word_le_nat_alt split: if_splits)

lemma decode_from_ascii_append:
  "\<forall>b\<in>set m. b < 0x80 \<Longrightarrow> decode_from 0 (m @ post) = map unat m @ decode_from 0 post"
  by (induction m) auto

lemma decode_ascii: "\<forall>b\<in>set m. b < 0x80 \<Longrightarrow> decode_ignore m = map unat m"
  using decode_from_ascii_append[of m "[]"] by (simp add: decode_ignore_def)

text \<open>A sequence never reaches into bytes that begin with something else than a continuation.\<close>

lemma utf8_head_append:
  assumes "post = [] \<or> \<not> is_cont (hd post)"
  shows "utf8_head b (bs @ post) = utf8_head b bs"
proof (cases bs)
  case Nil
  then show ?thesis using assms second_ok_cont[of b "hd post"]
    by (cases post) (auto split: list.splits)
next
  case (Cons c1 bs1)
  show ?thesis
  proof (cases bs1)
    case Nil
    then show ?thesis using assms Cons
      by (cases post) (auto split: list.splits)
  next
    case (Cons c2 bs2)
    show ?thesis
    proof (cases bs2)
      case Nil
      then show ?thesis using assms \<open>bs = c1 # bs1\<close> \<open>bs1 = c2 # bs2\<close>
        by (cases post) (auto split: list.splits)
    next
      case (Cons c3 bs3)
      then show ?thesis using \<open>bs = c1 # bs1\<close> \<open>bs1 = c2 # bs2\<close>
        by simp
    qed
  qed
qed

lemma utf8_head_length: "utf8_head b bs = Some (cp, k) \<Longrightarrow> k \<le> length bs"
  by (auto split: if_splits list.splits)

lemma decode_from_append:
  "post = [] \<or> \<not> is_cont (hd post) \<Longrightarrow> k \<le> length pre \<Longrightarrow>
   decode_from k (pre @ post) = decode_from k pre @ decode_from 0 post"
proof (induction k pre rule: decode_from.induct)
  case (1 k)
  then show ?case by simp
next
  case (2 k b bs)
  then show ?case by simp
next
  case (3 b bs)
  show ?case
  proof (cases "utf8_head b bs")
    case None
    then show ?thesis using 3 utf8_head_append[of post b bs]
      by (simp del: utf8_head.simps)
  next
    case (Some a)
    obtain cp k where a: "a = (cp, k)" by (cases a)
    have "k \<le> length bs" using Some a utf8_head_length by simp
    then show ?thesis using 3 Some a utf8_head_append[of post b bs]
      by (simp del: utf8_head.simps)
  qed
qed

lemma decode_keeps_ascii:
  assumes "\<forall>b\<in>set m. b < 0x80"
  shows "sublist (map unat m) (decode_ignore (pre @ m @ post))"
proof (cases m)
  case Nil
  then show ?thesis by simp
next
  case (Cons b m')
  then have "\<not> is_cont (hd (m @ post))" using assms ascii_not_cont by simp
  then have "decode_from 0 (pre @ m @ post) = decode_from 0 pre @ decode_from 0 (m @ post)"
    using decode_from_append[of "m @ post" 0 pre] by simp
  then show ?thesis
    using decode_from_ascii_append[OF assms, of post]
    by (simp add: decode_ignore_def sublist_def) blast
qed

section \<open>Binary files\<close>

lemma hybrid_binary:
  "open_rb w file_path = Inr data \<Longrightarrow> 0 \<in> set (take 8192 data) \<Longrightarrow>
   hybrid_search_in_file h w file_path pat \<noteq> Inr True"
  by (simp add: hybrid_search_in_file_def hybrid_try_def split: sum.splits)

lemma cpu_binary:
  "open_rb w file_path = Inr data \<Longrightarrow> 0 \<in> set (take 8192 data) \<Longrightarrow>
   cpu_scan eng w file_path pat \<noteq> Inr (events, True)"
  by (simp add: cpu_scan_def split: sum.splits)

text \<open>
  C4. A file whose first 8 KiB (the bytes the first \<open>read(8192)\<close> returns) contain a NUL
  byte is never content-matched: \<open>_search_in_file\<close> returns \<open>False\<close> for every pattern, every
  engine (CPU or GPU) and whatever the rest of the file holds.
\<close>

theorem binary_file_never_content_matched:
  assumes "open_rb w file_path = Inr data" and "0 \<in> set (take 8192 data)"
  shows "search_in_file eng w file_path pat = False"
  using hybrid_binary[OF assms] cpu_binary[OF assms]
  by (auto simp add: search_in_file_def split: option.splits sum.splits)

theorem binary_file_never_content_matched_witness:
  "open_rb (one_file_world nul_then_hello) (str ''a.txt'') = Inr nul_then_hello
   \<and> 0 \<in> set (take 8192 nul_then_hello)
   \<and> search_in_file cpu_engine (one_file_world nul_then_hello) (str ''a.txt'')
        (literal_pattern (str ''hello'')) = False"
proof -
  have a: "open_rb (one_file_world nul_then_hello) (str ''a.txt'') = Inr nul_then_hello"
    by (simp add: one_file_world_def)
  have b: "0 \<in> set (take 8192 nul_then_hello)"
    by (simp add: nul_then_hello_def)
  show ?thesis
    using a b binary_file_never_content_matched[OF a b] by simp
qed

section \<open>Size bounds\<close>

lemma size_check_zero_max:
  "size_check (c\<lparr>max_size := Some 0\<rparr>) n = size_check (c\<lparr>max_size := None\<rparr>) n"
  by (simp add: size_check_def)

lemma checks_ignore_max_size:
  "name_check w (c\<lparr>max_size := m\<rparr>) nr f = name_check w c nr f"
  "ext_check w (c\<lparr>max_size := m\<rparr>) f = ext_check w c f"
  "date_check (c\<lparr>max_size := m\<rparr>) d = date_check c d"
  by (simp_all add: name_check_def ext_check_def date_check_def split: option.splits)

lemma check_try_zero_max:
  "check_try eng w p nr cp (c\<lparr>max_size := Some 0\<rparr>)
     = check_try eng w p nr cp (c\<lparr>max_size := None\<rparr>)"
  unfolding check_try_def checks_ignore_max_size size_check_zero_max ..

text \<open>
  C10. \<open>max_size = 0\<close> is treated as an absent bound: the size check, and with it the whole
  \<open>_check_file\<close>, gives the same answer as with \<open>max_size = None\<close>, so with \<open>min_size = 0\<close> too
  a file of every size passes. In general a bound of 0 is no bound and any other bound is
  inclusive: the check is \<open>(min_size = 0 or min_size \<le> size)\<close> and
  \<open>(max_size is None or max_size = 0 or size \<le> max_size)\<close>. So \<open>min_size = 0\<close> applies no lower
  bound whatever \<open>max_size\<close> is, and with positive bounds the check is
  \<open>min_size \<le> size \<le> max_size\<close>.
\<close>

theorem zero_size_bound_is_no_bound:
  "size_check (c\<lparr>max_size := Some 0\<rparr>) n = size_check (c\<lparr>max_size := None\<rparr>) n
   \<and> check_file eng w p nr cp (c\<lparr>max_size := Some 0\<rparr>)
        = check_file eng w p nr cp (c\<lparr>max_size := None\<rparr>)
   \<and> size_check (c\<lparr>min_size := 0, max_size := Some 0\<rparr>) n
   \<and> size_check (c\<lparr>min_size := 0, max_size := None\<rparr>) n
   \<and> (0 < mn \<and> 0 < mx \<longrightarrow>
        size_check (c\<lparr>min_size := mn, max_size := Some mx\<rparr>) n
          = (mn \<le> int n \<and> int n \<le> mx))
   \<and> size_check (c\<lparr>min_size := mn, max_size := Some mx\<rparr>) n
        = ((mn = 0 \<or> mn \<le> int n) \<and> (mx = 0 \<or> int n \<le> mx))
   \<and> size_check (c\<lparr>min_size := mn, max_size := None\<rparr>) n = (mn = 0 \<or> mn \<le> int n)
   \<and> size_check (c\<lparr>min_size := 0, max_size := Some mx\<rparr>) n = (mx = 0 \<or> int n \<le> mx)
   \<and> size_check (c\<lparr>min_size := mn, max_size := Some 0\<rparr>) n = (mn = 0 \<or> mn \<le> int n)"
proof -
  have "check_file eng w p nr cp (c\<lparr>max_size := Some 0\<rparr>)
          = check_file eng w p nr cp (c\<lparr>max_size := None\<rparr>)"
    by (simp add: check_file_def check_try_zero_max)
  moreover have "0 < mn \<and> 0 < mx \<longrightarrow>
        size_check (c\<lparr>min_size := mn, max_size := Some mx\<rparr>) n
          = (mn \<le> int n \<and> int n \<le> mx)"
    by (auto simp add: size_check_def)
  moreover have "size_check (c\<lparr>min_size := mn, max_size := Some mx\<rparr>) n
        = ((mn = 0 \<or> mn \<le> int n) \<and> (mx = 0 \<or> int n \<le> mx))"
    by (auto simp add: size_check_def)
  moreover have "size_check (c\<lparr>min_size := mn, max_size := None\<rparr>) n
        = (mn = 0 \<or> mn \<le> int n)"
    by (auto simp add: size_check_def)
  moreover have "size_check (c\<lparr>min_size := 0, max_size := Some mx\<rparr>) n
        = (mx = 0 \<or> int n \<le> mx)"
    by (auto simp add: size_check_def)
  moreover have "size_check (c\<lparr>min_size := mn, max_size := Some 0\<rparr>) n
        = (mn = 0 \<or> mn \<le> int n)"
    by (auto simp add: size_check_def)
  ultimately show ?thesis
    by (simp add: size_check_def)
qed

theorem zero_size_bound_is_no_bound_witness:
  "(0::int) < 10 \<and> (0::int) < 20
   \<and> size_check (any_file\<lparr>min_size := 10, max_size := Some 20\<rparr>) 10
   \<and> size_check (any_file\<lparr>min_size := 10, max_size := Some 20\<rparr>) 20
   \<and> \<not> size_check (any_file\<lparr>min_size := 10, max_size := Some 20\<rparr>) 21
   \<and> \<not> size_check (any_file\<lparr>min_size := 10, max_size := Some 20\<rparr>) 9
   \<and> size_check (any_file\<lparr>min_size := 0, max_size := Some 0\<rparr>) 1000000
   \<and> size_check (any_file\<lparr>min_size := 0, max_size := Some 20\<rparr>) 0
   \<and> size_check (any_file\<lparr>min_size := 0, max_size := Some 20\<rparr>) 20
   \<and> \<not> size_check (any_file\<lparr>min_size := 0, max_size := Some 20\<rparr>) 21
   \<and> size_check (any_file\<lparr>min_size := 10, max_size := Some 0\<rparr>) 1000000
   \<and> \<not> size_check (any_file\<lparr>min_size := 10, max_size := Some 0\<rparr>) 9"
  using zero_size_bound_is_no_bound[of any_file 10 cpu_engine "one_file_world []" "[]" None None 10 20]
        zero_size_bound_is_no_bound[of any_file 20 cpu_engine "one_file_world []" "[]" None None 10 20]
        zero_size_bound_is_no_bound[of any_file 21 cpu_engine "one_file_world []" "[]" None None 10 20]
        zero_size_bound_is_no_bound[of any_file 9 cpu_engine "one_file_world []" "[]" None None 10 20]
        zero_size_bound_is_no_bound[of any_file 0 cpu_engine "one_file_world []" "[]" None None 10 20]
        zero_size_bound_is_no_bound[of any_file 1000000 cpu_engine "one_file_world []" "[]" None None 10 20]
  by simp

section \<open>Pattern compilation comes first\<close>








section \<open>The collecting loop\<close>

lemma collect_step:
  "\<not> stop_in_loop sch k \<Longrightarrow>
   collect sch callback tot k (f # fs) =
     (results_of f @ fst (collect sch callback tot (Suc k) fs),
      (if callback then map (\<lambda>result. Callback (Some result) k tot) (results_of f) else [])
      @ (if callback \<and> Suc k mod 100 = 0 then [Callback None (Suc k) tot] else [])
      @ snd (collect sch callback tot (Suc k) fs))"
  by (simp add: results_of_def Let_def split: prod.splits)

lemma collect_results:
  "\<forall>n. \<not> stop_in_loop sch n \<Longrightarrow>
   fst (collect sch callback tot k futures) = concat (map results_of futures)"
proof (induction futures arbitrary: k)
  case Nil
  then show ?case by simp
next
  case (Cons f fs)
  then show ?case by (simp add: collect_step del: collect.simps)
qed

lemma collect_callbacks:
  "\<forall>n. \<not> stop_in_loop sch n \<Longrightarrow>
   snd (collect sch True tot k futures)
     = concat (map2 (callbacks_for tot) [k..<k + length futures] futures)"
proof (induction futures arbitrary: k)
  case Nil
  then show ?case by simp
next
  case (Cons f fs)
  have "[k..<k + length (f # fs)] = k # [Suc k..<Suc k + length fs]"
    using upt_rec[of k "k + length (f # fs)"] by simp
  then show ?case using Cons.IH[OF Cons.prems, of "Suc k"] Cons.prems
    by (simp add: collect_step callbacks_for_def del: collect.simps)
qed

lemma search_unfold:
  assumes "compile_patterns w c content_regex = Inr (cp, nr)"
  shows "search eng w sch root_path c content_regex callback =
     (Walk root_path # map Submit (walked_files w root_path)
        @ snd (collect sch callback (length (walked_files w root_path)) 0
                (map (\<lambda>file_path.
                   check_file (eng\<lparr>stop_flag := stop_in_worker sch file_path\<rparr>) w file_path
                     nr cp (c\<lparr>extensions := normalize_extensions w (extensions c)\<rparr>))
                 (as_completed sch (walked_files w root_path)))),
      Inr (fst (collect sch callback (length (walked_files w root_path)) 0
                (map (\<lambda>file_path.
                   check_file (eng\<lparr>stop_flag := stop_in_worker sch file_path\<rparr>) w file_path
                     nr cp (c\<lparr>extensions := normalize_extensions w (extensions c)\<rparr>))
                 (as_completed sch (walked_files w root_path))))))"
  using assms by (simp add: search_def Let_def split: prod.splits)

lemma search_results:
  assumes "compile_patterns w c content_regex = Inr (cp, nr)"
    and "\<forall>n. \<not> stop_in_loop sch n"
  shows "snd (search eng w sch root_path c content_regex callback) =
     Inr (concat (map (\<lambda>file_path. results_of
            (check_file (eng\<lparr>stop_flag := stop_in_worker sch file_path\<rparr>) w file_path nr cp
               (c\<lparr>extensions := normalize_extensions w (extensions c)\<rparr>)))
          (as_completed sch (walked_files w root_path))))"
  by (simp add: search_unfold[OF assms(1)] collect_results[OF assms(2)] comp_def)

lemma search_events:
  assumes "compile_patterns w c content_regex = Inr (cp, nr)"
    and "\<forall>n. \<not> stop_in_loop sch n"
  shows "fst (search eng w sch root_path c content_regex True) =
     Walk root_path # map Submit (walked_files w root_path)
     @ concat (map2 (callbacks_for (length (walked_files w root_path)))
         [0..<length (as_completed sch (walked_files w root_path))]
         (map (\<lambda>file_path.
            check_file (eng\<lparr>stop_flag := stop_in_worker sch file_path\<rparr>) w file_path nr cp
               (c\<lparr>extensions := normalize_extensions w (extensions c)\<rparr>))
          (as_completed sch (walked_files w root_path))))"
  by (simp add: search_unfold[OF assms(1)] collect_callbacks[OF assms(2)])

lemma count_result_callback:
  "\<forall>n. \<not> stop_in_loop sch n \<Longrightarrow>
   count_list (snd (collect sch True tot k futures)) (Callback (Some r) i tot)
     = (if k \<le> i \<and> i < k + length futures \<and> futures ! (i - k) = Inr (Some r) then 1 else 0)"
proof (induction futures arbitrary: k)
  case Nil
  then show ?case by simp
next
  case (Cons f fs)
  have told: "count_list (map (\<lambda>result. Callback (Some result) k tot) (results_of f))
                (Callback (Some r) i tot) = (if k = i \<and> f = Inr (Some r) then 1 else 0)"
    by (auto simp add: results_of_def split: sum.splits option.splits)
  have rest: "count_list (snd (collect sch True tot (Suc k) fs)) (Callback (Some r) i tot)
     = (if Suc k \<le> i \<and> i < Suc k + length fs \<and> fs ! (i - Suc k) = Inr (Some r) then 1 else 0)"
    using Cons.IH[OF Cons.prems] .
  show ?case
  proof (cases "k = i")
    case True
    then show ?thesis using Cons.prems told rest
      by (simp add: collect_step del: collect.simps)
  next
    case False
    have "Suc k \<le> i \<Longrightarrow> (f # fs) ! (i - k) = fs ! (i - Suc k)"
      by (simp add: Suc_diff_le)
    then show ?thesis using Cons.prems False
      by (auto simp add: collect_step told rest simp del: collect.simps)
  qed
qed

lemma count_heartbeat:
  "\<forall>n. \<not> stop_in_loop sch n \<Longrightarrow>
   count_list (snd (collect sch True tot k futures)) (Callback None n tot)
     = (if k < n \<and> n \<le> k + length futures \<and> n mod 100 = 0 then 1 else 0)"
proof (induction futures arbitrary: k)
  case Nil
  then show ?case by simp
next
  case (Cons f fs)
  have told: "count_list (map (\<lambda>result. Callback (Some result) k tot) (results_of f))
                (Callback None n tot) = 0"
    by (auto simp add: results_of_def split: sum.splits option.splits)
  have rest: "count_list (snd (collect sch True tot (Suc k) fs)) (Callback None n tot)
     = (if Suc k < n \<and> n \<le> Suc k + length fs \<and> n mod 100 = 0 then 1 else 0)"
    using Cons.IH[OF Cons.prems] .
  show ?case
    using Cons.prems
    by (auto simp add: collect_step told rest simp del: collect.simps)
qed

lemma collected_le: "collected sch k n \<le> n"
  by (induction n arbitrary: k) simp_all

lemma collected_none_before: "i < collected sch k n \<Longrightarrow> \<not> stop_in_loop sch (k + i)"
proof (induction n arbitrary: k i)
  case 0
  then show ?case by simp
next
  case (Suc n)
  then have now: "\<not> stop_in_loop sch k"
    by (auto split: if_splits)
  show ?case
  proof (cases i)
    case 0
    then show ?thesis using now by simp
  next
    case (Suc j)
    then have "j < collected sch (Suc k) n"
      using Suc.prems now by simp
    then have "\<not> stop_in_loop sch (Suc k + j)"
      by (rule Suc.IH)
    then show ?thesis using Suc by simp
  qed
qed

lemma collected_stops:
  "collected sch k n < n \<Longrightarrow> stop_in_loop sch (k + collected sch k n)"
proof (induction n arbitrary: k)
  case 0
  then show ?case by simp
next
  case (Suc n)
  show ?case
  proof (cases "stop_in_loop sch k")
    case True
    then show ?thesis by simp
  next
    case False
    then have "collected sch (Suc k) n < n"
      using Suc.prems by simp
    then have "stop_in_loop sch (Suc k + collected sch (Suc k) n)"
      by (rule Suc.IH)
    then show ?thesis using False by simp
  qed
qed

lemma collected_all: "\<forall>n. \<not> stop_in_loop sch n \<Longrightarrow> collected sch k n = n"
  by (induction n arbitrary: k) simp_all

lemma collect_take:
  "collect sch callback tot k futures
     = collect (sch\<lparr>stop_in_loop := (\<lambda>n. False)\<rparr>) callback tot k
         (take (collected sch k (length futures)) futures)"
proof (induction futures arbitrary: k)
  case Nil
  then show ?case by simp
next
  case (Cons f fs)
  show ?case
  proof (cases "stop_in_loop sch k")
    case True
    then show ?thesis by simp
  next
    case False
    have free: "\<not> stop_in_loop (sch\<lparr>stop_in_loop := (\<lambda>n. False)\<rparr>) k"
      by simp
    have "take (collected sch k (length (f # fs))) (f # fs)
            = f # take (collected sch (Suc k) (length fs)) fs"
      using False by simp
    then show ?thesis
      unfolding collect_step[OF False]
      using Cons.IH[of "Suc k"] collect_step[OF free, of callback tot f]
      by simp
  qed
qed

lemma collect_results_general:
  "fst (collect sch callback tot k futures)
     = concat (map results_of (take (collected sch k (length futures)) futures))"
proof -
  have "\<forall>n. \<not> stop_in_loop (sch\<lparr>stop_in_loop := (\<lambda>n. False)\<rparr>) n"
    by simp
  then show ?thesis
    unfolding collect_take[of sch] by (rule collect_results)
qed

lemma collect_callbacks_general:
  "snd (collect sch True tot k futures)
     = concat (map2 (callbacks_for tot) [k..<k + collected sch k (length futures)]
         (take (collected sch k (length futures)) futures))"
proof -
  have free: "\<forall>n. \<not> stop_in_loop (sch\<lparr>stop_in_loop := (\<lambda>n. False)\<rparr>) n"
    by simp
  have "length (take (collected sch k (length futures)) futures)
          = collected sch k (length futures)"
    using collected_le[of sch k "length futures"] by simp
  then show ?thesis
    unfolding collect_take[of sch]
    using collect_callbacks[OF free, of tot k "take (collected sch k (length futures)) futures"]
    by simp
qed

lemma count_result_callback_general:
  "count_list (snd (collect sch True tot k futures)) (Callback (Some r) i tot)
     = (if k \<le> i \<and> i < k + collected sch k (length futures)
           \<and> futures ! (i - k) = Inr (Some r) then 1 else 0)"
proof -
  have free: "\<forall>n. \<not> stop_in_loop (sch\<lparr>stop_in_loop := (\<lambda>n. False)\<rparr>) n"
    by simp
  have len: "length (take (collected sch k (length futures)) futures)
          = collected sch k (length futures)"
    using collected_le[of sch k "length futures"] by simp
  have "take (collected sch k (length futures)) futures ! (i - k) = futures ! (i - k)"
    if "k \<le> i" and "i < k + collected sch k (length futures)"
    using that by simp
  then show ?thesis
    unfolding collect_take[of sch]
    using count_result_callback[OF free, of tot k
            "take (collected sch k (length futures)) futures" r i] len
    by auto
qed

lemma count_heartbeat_general:
  "count_list (snd (collect sch True tot k futures)) (Callback None n tot)
     = (if k < n \<and> n \<le> k + collected sch k (length futures) \<and> n mod 100 = 0 then 1 else 0)"
proof -
  have free: "\<forall>n. \<not> stop_in_loop (sch\<lparr>stop_in_loop := (\<lambda>n. False)\<rparr>) n"
    by simp
  have len: "length (take (collected sch k (length futures)) futures)
          = collected sch k (length futures)"
    using collected_le[of sch k "length futures"] by simp
  show ?thesis
    unfolding collect_take[of sch]
    using count_heartbeat[OF free, of tot k
            "take (collected sch k (length futures)) futures" n] len
    by simp
qed

lemma search_general:
  assumes "compile_patterns w c content_regex = Inr (cp, nr)"
  shows "search eng w sch root_path c content_regex True =
     (Walk root_path # map Submit (walked_files w root_path)
        @ concat (map2 (callbacks_for (length (walked_files w root_path)))
            [0..<collected sch 0 (length (as_completed sch (walked_files w root_path)))]
            (take (collected sch 0 (length (as_completed sch (walked_files w root_path))))
               (map (worker_result eng w sch c nr cp)
                  (as_completed sch (walked_files w root_path))))),
      Inr (concat (map results_of
            (take (collected sch 0 (length (as_completed sch (walked_files w root_path))))
               (map (worker_result eng w sch c nr cp)
                  (as_completed sch (walked_files w root_path)))))))"
proof -
  have "(\<lambda>file_path.
           check_file (eng\<lparr>stop_flag := stop_in_worker sch file_path\<rparr>) w file_path nr cp
             (c\<lparr>extensions := normalize_extensions w (extensions c)\<rparr>))
          = worker_result eng w sch c nr cp"
    by (rule ext) (simp add: worker_result_def)
  then show ?thesis
    unfolding search_unfold[OF assms]
    using collect_results_general[of sch True "length (walked_files w root_path)" 0
            "map (worker_result eng w sch c nr cp) (as_completed sch (walked_files w root_path))"]
          collect_callbacks_general[of sch "length (walked_files w root_path)" 0
            "map (worker_result eng w sch c nr cp) (as_completed sch (walked_files w root_path))"]
    by simp
qed

text \<open>
  C7, as the code has it. The collecting loop collects the first \<open>m\<close> completions, where
  \<open>m\<close> is the first iteration that sees the stop flag set (all of them when none does):
  no iteration before \<open>m\<close> sees the flag, and iteration \<open>m\<close> does if there is one. For these
  completions the callback invocations are exactly those of the protocol, in completion
  order: for the completion collected when \<open>processed = i\<close>, one
  \<open>callback(result, i, total_files)\<close> if it produced a result (so each such invocation occurs
  exactly once, and none for a completion without result), and after every 100th
  completion one \<open>callback(None, n, total_files)\<close> with \<open>n\<close> the number of completions so far.
  Completions after \<open>m\<close> are neither collected nor reported.
\<close>

theorem callbacks_until_stopped:
  "collect sch True total_files k futures
     = (concat (map results_of (take (collected sch k (length futures)) futures)),
        concat (map2 (callbacks_for total_files) [k..<k + collected sch k (length futures)]
          (take (collected sch k (length futures)) futures)))
   \<and> collected sch k (length futures) \<le> length futures
   \<and> (\<forall>i. i < collected sch k (length futures) \<longrightarrow> \<not> stop_in_loop sch (k + i))
   \<and> (collected sch k (length futures) < length futures \<longrightarrow>
        stop_in_loop sch (k + collected sch k (length futures)))
   \<and> ((\<forall>n. \<not> stop_in_loop sch n) \<longrightarrow>
        collect sch True total_files k futures
          = (concat (map results_of futures),
             concat (map2 (callbacks_for total_files) [k..<k + length futures] futures)))
   \<and> count_list (snd (collect sch True total_files k futures))
         (Callback (Some r) i total_files)
       = (if k \<le> i \<and> i < k + collected sch k (length futures)
             \<and> futures ! (i - k) = Inr (Some r)
          then 1 else 0)
   \<and> count_list (snd (collect sch True total_files k futures))
         (Callback None n total_files)
       = (if k < n \<and> n \<le> k + collected sch k (length futures) \<and> n mod 100 = 0
          then 1 else 0)
   \<and> (compile_patterns w c content_regex = Inr (cp, nr) \<longrightarrow>
        search eng w sch root_path c content_regex True =
          (Walk root_path # map Submit (walked_files w root_path)
             @ concat (map2 (callbacks_for (length (walked_files w root_path)))
                 [0..<collected sch 0 (length (as_completed sch (walked_files w root_path)))]
                 (take (collected sch 0 (length (as_completed sch (walked_files w root_path))))
                    (map (worker_result eng w sch c nr cp)
                       (as_completed sch (walked_files w root_path))))),
           Inr (concat (map results_of
                 (take (collected sch 0 (length (as_completed sch (walked_files w root_path))))
                    (map (worker_result eng w sch c nr cp)
                       (as_completed sch (walked_files w root_path))))))))"
proof -
  have "collect sch True total_files k futures
           = (fst (collect sch True total_files k futures),
              snd (collect sch True total_files k futures))"
    by simp
  then have a: "collect sch True total_files k futures
     = (concat (map results_of (take (collected sch k (length futures)) futures)),
        concat (map2 (callbacks_for total_files) [k..<k + collected sch k (length futures)]
          (take (collected sch k (length futures)) futures)))"
    unfolding collect_results_general[of sch True total_files k futures]
          collect_callbacks_general[of sch total_files k futures] .
  have b: "collected sch k (length futures) \<le> length futures"
    by (rule collected_le)
  have c: "\<forall>i. i < collected sch k (length futures) \<longrightarrow> \<not> stop_in_loop sch (k + i)"
    using collected_none_before by blast
  have d: "collected sch k (length futures) < length futures \<longrightarrow>
        stop_in_loop sch (k + collected sch k (length futures))"
    using collected_stops by blast
  have e: "(\<forall>n. \<not> stop_in_loop sch n) \<longrightarrow>
        collect sch True total_files k futures
          = (concat (map results_of futures),
             concat (map2 (callbacks_for total_files) [k..<k + length futures] futures))"
  proof
    assume "\<forall>n. \<not> stop_in_loop sch n"
    then have "collected sch k (length futures) = length futures"
      by (rule collected_all)
    then show "collect sch True total_files k futures
          = (concat (map results_of futures),
             concat (map2 (callbacks_for total_files) [k..<k + length futures] futures))"
      using a by simp
  qed
  have f: "count_list (snd (collect sch True total_files k futures))
         (Callback (Some r) i total_files)
       = (if k \<le> i \<and> i < k + collected sch k (length futures)
             \<and> futures ! (i - k) = Inr (Some r)
          then 1 else 0)"
    by (rule count_result_callback_general)
  have g: "count_list (snd (collect sch True total_files k futures))
         (Callback None n total_files)
       = (if k < n \<and> n \<le> k + collected sch k (length futures) \<and> n mod 100 = 0
          then 1 else 0)"
    by (rule count_heartbeat_general)
  have h: "compile_patterns w c content_regex = Inr (cp, nr) \<longrightarrow>
        search eng w sch root_path c content_regex True =
          (Walk root_path # map Submit (walked_files w root_path)
             @ concat (map2 (callbacks_for (length (walked_files w root_path)))
                 [0..<collected sch 0 (length (as_completed sch (walked_files w root_path)))]
                 (take (collected sch 0 (length (as_completed sch (walked_files w root_path))))
                    (map (worker_result eng w sch c nr cp)
                       (as_completed sch (walked_files w root_path))))),
           Inr (concat (map results_of
                 (take (collected sch 0 (length (as_completed sch (walked_files w root_path))))
                    (map (worker_result eng w sch c nr cp)
                       (as_completed sch (walked_files w root_path)))))))"
    using search_general by blast
  show ?thesis
    using a b c d e f g h by (intro conjI)
qed

theorem callbacks_until_stopped_witness:
  "collected stopped_after_one 0 2 = 1
   \<and> stop_in_loop stopped_after_one 1
   \<and> collect stopped_after_one True 2 0 [Inr (Some hello_result), Inr (Some b_result)]
       = ([hello_result], [Callback (Some hello_result) 0 2])
   \<and> collect in_order True 2 0 [Inr (Some hello_result), Inr (Some b_result)]
       = ([hello_result, b_result],
          [Callback (Some hello_result) 0 2, Callback (Some b_result) 1 2])
   \<and> count_list (snd (collect in_order True 100 0 (replicate 100 (Inr None))))
        (Callback None 100 100) = 1"
proof -
  have m: "collected stopped_after_one 0 2 = 1"
    by (simp add: stopped_after_one_def numeral_2_eq_2)
  have m2: "collected stopped_after_one 0
     (length [Inr (Some hello_result) :: exn + search_result option, Inr (Some b_result)]) = 1"
    by (simp add: stopped_after_one_def)
  have s: "stop_in_loop stopped_after_one 1"
    by (simp add: stopped_after_one_def)
  have free: "\<forall>n. \<not> stop_in_loop in_order n"
    by (simp add: in_order_def)
  have a: "collect stopped_after_one True 2 0 [Inr (Some hello_result), Inr (Some b_result)]
       = ([hello_result], [Callback (Some hello_result) 0 2])"
    unfolding callbacks_until_stopped[of stopped_after_one 2 0
            "[Inr (Some hello_result), Inr (Some b_result)]", THEN conjunct1] m2
    by (simp add: results_of_def callbacks_for_def)
  have b0: "collect in_order True 2 0 [Inr (Some hello_result), Inr (Some b_result)]
          = (concat (map results_of [Inr (Some hello_result), Inr (Some b_result)]),
             concat (map2 (callbacks_for 2)
               [0..<0 + length [Inr (Some hello_result) :: exn + search_result option,
                                Inr (Some b_result)]]
               [Inr (Some hello_result), Inr (Some b_result)]))"
    by (rule callbacks_until_stopped[of in_order 2 0
            "[Inr (Some hello_result), Inr (Some b_result)]",
            THEN conjunct2, THEN conjunct2, THEN conjunct2, THEN conjunct2, THEN conjunct1,
            THEN mp, OF free])
  have b: "collect in_order True 2 0 [Inr (Some hello_result), Inr (Some b_result)]
       = ([hello_result, b_result],
          [Callback (Some hello_result) 0 2, Callback (Some b_result) 1 2])"
    unfolding b0 by (simp add: results_of_def callbacks_for_def upt_rec)
  have all: "collected in_order 0
               (length (replicate 100 (Inr None :: exn + search_result option))) = 100"
    using collected_all[OF free, of 0 100] by simp
  have c0: "count_list (snd (collect in_order True 100 0 (replicate 100 (Inr None))))
        (Callback None 100 100)
      = (if 0 < (100::nat)
            \<and> (100::nat) \<le> 0 + collected in_order 0
                 (length (replicate 100 (Inr None :: exn + search_result option)))
            \<and> (100::nat) mod 100 = 0 then 1 else 0)"
    by (rule callbacks_until_stopped[of in_order 100 0 "replicate 100 (Inr None)" _ _ 100,
            THEN conjunct2, THEN conjunct2, THEN conjunct2, THEN conjunct2, THEN conjunct2,
            THEN conjunct2, THEN conjunct1])
  have c: "count_list (snd (collect in_order True 100 0 (replicate 100 (Inr None))))
        (Callback None 100 100) = 1"
    unfolding c0 all by simp
  show ?thesis using m s a b c by (intro conjI)
qed

text \<open>
  A completion that produced a result and got no callback: the worker finished the file
  with a result, \<open>stop()\<close> was called, and the loop left before collecting it.
\<close>

theorem stopped_loop_counterexample:
  "check_file cpu_engine (one_file_world (ascii ''hello'')) (str ''a.txt'') None None any_file
     = Inr (Some hello_result)
   \<and> search cpu_engine (one_file_world (ascii ''hello'')) stopped_after_dispatch (str ''/tmp'')
       any_file None True
     = ([Walk (str ''/tmp''), Submit (str ''a.txt'')], Inr [])"
proof -
  have a: "check_file cpu_engine (one_file_world (ascii ''hello'')) (str ''a.txt'') None None
             any_file = Inr (Some hello_result)"
    by (simp add: check_file_def check_try_def cpu_engine_def one_file_world_def any_file_def
          name_check_def ext_check_def size_check_def date_check_def hello_result_def ascii_def)
  have b: "compile_patterns (one_file_world (ascii ''hello'')) any_file None = Inr (None, None)"
    by (simp add: compile_patterns_def any_file_def)
  have c: "search cpu_engine (one_file_world (ascii ''hello'')) stopped_after_dispatch
             (str ''/tmp'') any_file None True
           = ([Walk (str ''/tmp''), Submit (str ''a.txt'')], Inr [])"
    unfolding search_unfold[OF b]
    by (simp add: stopped_after_dispatch_def one_file_world_def)
  show ?thesis using a c by blast
qed

section \<open>The per-file check as a conjunction\<close>

lemma check_try_Some_iff:
  "check_try eng w p nr cp c = Inr (Some r) \<longleftrightarrow>
     \<not> stop_flag eng \<and> os_path_isfile w p
     \<and> name_check w c nr (os_path_basename w p) = Inr True
     \<and> ext_check w c (os_path_basename w p)
     \<and> (\<exists>file_size st_mtime file_modified.
          os_stat w p = Inr (file_size, st_mtime)
          \<and> fromtimestamp w st_mtime = Inr file_modified
          \<and> size_check c file_size \<and> date_check c file_modified
          \<and> (case cp of
                None \<Rightarrow> r = \<lparr>sr_path = p, sr_size = file_size, sr_modified = file_modified,
                             sr_match_reason = reason_name\<rparr>
              | Some pat \<Rightarrow> search_in_file eng w p pat
                  \<and> r = \<lparr>sr_path = p, sr_size = file_size, sr_modified = file_modified,
                          sr_match_reason = reason_content\<rparr>))"
proof (cases "name_check w c nr (os_path_basename w p)")
  case (Inl e)
  then show ?thesis by (simp add: check_try_def Let_def)
next
  case (Inr b)
  show ?thesis
  proof (cases "os_stat w p")
    case (Inl e)
    then show ?thesis using Inr by (cases b) (simp_all add: check_try_def Let_def)
  next
    case st: (Inr st)
    obtain file_size st_mtime where st2: "st = (file_size, st_mtime)" by (cases st)
    show ?thesis
    proof (cases "fromtimestamp w st_mtime")
      case (Inl e)
      then show ?thesis using Inr st st2 by (cases b) (simp_all add: check_try_def Let_def)
    next
      case md: (Inr file_modified)
      show ?thesis using Inr st st2 md
        by (cases b; cases cp) (auto simp add: check_try_def Let_def)
    qed
  qed
qed

lemma check_file_Some_iff:
  "check_file eng w p nr cp c = Inr (Some r) \<longleftrightarrow> check_try eng w p nr cp c = Inr (Some r)"
  by (auto simp add: check_file_def split: sum.splits if_splits)

lemma passes_iff:
  "(\<exists>r. check_file eng w p nr cp c = Inr (Some r)) \<longleftrightarrow>
     \<not> stop_flag eng \<and> passes_filters eng w p nr cp c"
  unfolding check_file_Some_iff check_try_Some_iff passes_filters_def
  by (auto split: sum.splits option.splits prod.splits)

lemma check_file_path:
  "check_file eng w p nr cp c = Inr (Some r) \<Longrightarrow>
   sr_path r = p \<and> sr_match_reason r = (if cp = None then reason_name else reason_content)"
  unfolding check_file_Some_iff check_try_Some_iff
  by (auto split: option.splits)

lemma results_of_set: "r \<in> set (results_of f) \<longleftrightarrow> f = Inr (Some r)"
  by (auto simp add: results_of_def split: sum.splits option.splits)

lemma search_membership:
  assumes comp: "compile_patterns w c content_regex = Inr (cp, nr)"
    and loop: "\<forall>n. \<not> stop_in_loop sch n"
    and work: "\<forall>f. \<not> stop_in_worker sch f"
    and perm: "set (as_completed sch (walked_files w root_path)) = set (walked_files w root_path)"
  shows "\<exists>results. snd (search eng w sch root_path c content_regex callback) = Inr results
     \<and> (\<forall>f. (\<exists>r\<in>set results. sr_path r = f) \<longleftrightarrow>
              f \<in> set (walked_files w root_path)
              \<and> passes_filters (eng\<lparr>stop_flag := False\<rparr>) w f nr cp
                  (c\<lparr>extensions := normalize_extensions w (extensions c)\<rparr>))"
proof -
  let ?c = "c\<lparr>extensions := normalize_extensions w (extensions c)\<rparr>"
  let ?e = "eng\<lparr>stop_flag := False\<rparr>"
  let ?results = "concat (map (\<lambda>file_path. results_of (check_file ?e w file_path nr cp ?c))
          (as_completed sch (walked_files w root_path)))"
  have a: "snd (search eng w sch root_path c content_regex callback) = Inr ?results"
    using search_results[OF comp loop, of eng root_path callback] work by simp
  have b: "r \<in> set ?results \<longleftrightarrow>
      (\<exists>f\<in>set (walked_files w root_path). check_file ?e w f nr cp ?c = Inr (Some r))" for r
    using perm by (auto simp add: results_of_set)
  have c: "(\<exists>r\<in>set ?results. sr_path r = f) \<longleftrightarrow>
              f \<in> set (walked_files w root_path) \<and> passes_filters ?e w f nr cp ?c" for f
  proof
    assume "\<exists>r\<in>set ?results. sr_path r = f"
    then obtain r g where r: "g \<in> set (walked_files w root_path)"
        "check_file ?e w g nr cp ?c = Inr (Some r)" "sr_path r = f"
      using b by blast
    then have "g = f" using check_file_path by blast
    then show "f \<in> set (walked_files w root_path) \<and> passes_filters ?e w f nr cp ?c"
      using r passes_iff[of ?e w f nr cp ?c] by auto
  next
    assume h: "f \<in> set (walked_files w root_path) \<and> passes_filters ?e w f nr cp ?c"
    then obtain r where r: "check_file ?e w f nr cp ?c = Inr (Some r)"
      using passes_iff[of ?e w f nr cp ?c] by auto
    then have "r \<in> set ?results" using b h by blast
    then show "\<exists>r\<in>set ?results. sr_path r = f"
      using check_file_path[OF r] by blast
  qed
  show ?thesis using a c by blast
qed

text \<open>
  C1, as the code has it. \<open>_check_file\<close> returns a \<open>SearchResult\<close> if and only if the stop
  flag is not set and the file passes the conjunction of the predicates: it is a regular
  file, its name and extension pass, \<open>os.stat\<close> succeeds and size and modification time are
  in range, and no content pattern is given or \<open>_search_in_file\<close> reports a match. The
  result then carries the path, and the reason tells whether a content pattern was given.
  In a run that is not stopped, where \<open>as_completed\<close> yields every candidate, a candidate
  appears in the list \<open>search\<close> returns if and only if it passes the conjunction, with the
  compiled patterns and the normalised extensions.
\<close>

theorem conjunctive_filter:
  "((\<exists>r. check_file eng w p nr cp c = Inr (Some r)) \<longleftrightarrow>
       \<not> stop_flag eng \<and> passes_filters eng w p nr cp c)
   \<and> (check_file eng w p nr cp c = Inr (Some r) \<longrightarrow>
        sr_path r = p \<and> sr_match_reason r = (if cp = None then reason_name else reason_content))
   \<and> (compile_patterns w c content_regex = Inr (cp, nr)
       \<and> (\<forall>n. \<not> stop_in_loop sch n) \<and> (\<forall>f. \<not> stop_in_worker sch f)
       \<and> set (as_completed sch (walked_files w root_path)) = set (walked_files w root_path)
       \<longrightarrow>
        (\<exists>results. snd (search eng w sch root_path c content_regex callback) = Inr results
           \<and> (\<forall>f. (\<exists>r\<in>set results. sr_path r = f) \<longleftrightarrow>
                f \<in> set (walked_files w root_path)
                \<and> passes_filters (eng\<lparr>stop_flag := False\<rparr>) w f nr cp
                    (c\<lparr>extensions := normalize_extensions w (extensions c)\<rparr>))))"
  using passes_iff[of eng w p nr cp c] check_file_path[of eng w p nr cp c r]
        search_membership[of w c content_regex cp nr sch root_path eng callback]
  by blast

theorem conjunctive_filter_witness:
  "\<not> stop_flag cpu_engine
   \<and> passes_filters cpu_engine (one_file_world (ascii ''hello'')) (str ''a.txt'') None None
        any_file
   \<and> (\<exists>r. check_file cpu_engine (one_file_world (ascii ''hello'')) (str ''a.txt'') None None
             any_file = Inr (Some r))"
proof -
  have a: "\<not> stop_flag cpu_engine"
    by (simp add: cpu_engine_def)
  have b: "passes_filters cpu_engine (one_file_world (ascii ''hello'')) (str ''a.txt'') None
             None any_file"
    by (simp add: passes_filters_def one_file_world_def any_file_def name_check_def
          ext_check_def size_check_def date_check_def)
  show ?thesis
    using a b conjunctive_filter[of cpu_engine "one_file_world (ascii ''hello'')" "str ''a.txt''"
        None None any_file]
    by blast
qed

text \<open>
  A regular file that passes every predicate, with no content pattern, and for which
  \<open>_check_file\<close> returns \<open>None\<close>: the stop flag is set.
\<close>

theorem stopped_check_counterexample:
  "passes_filters stopped_engine (one_file_world (ascii ''hello'')) (str ''a.txt'') None None
     any_file
   \<and> check_file stopped_engine (one_file_world (ascii ''hello'')) (str ''a.txt'') None None
       any_file = Inr None"
  by (simp add: passes_filters_def one_file_world_def any_file_def name_check_def
        ext_check_def size_check_def date_check_def check_file_def check_try_def
        stopped_engine_def)

section \<open>Faults of a single file\<close>

lemma search_in_file_absorbs:
  "os_path_getsize w p = Inl e \<Longrightarrow> search_in_file eng w p pat = False"
  "open_rb w p = Inl e \<Longrightarrow> search_in_file eng w p pat = False"
  by (auto simp: search_in_file_def cpu_scan_def hybrid_search_in_file_def hybrid_try_def
           split: option.splits sum.splits)

lemma search_in_file_absorbs_scan:
  "\<not> use_gpu eng \<Longrightarrow> cpu_scan eng w p pat = Inl e \<Longrightarrow> search_in_file eng w p pat = False"
  by (simp add: search_in_file_def)

lemma search_in_file_absorbs_hybrid:
  "use_gpu eng \<Longrightarrow> gpu_engine eng = Some h \<Longrightarrow> hybrid_try h w p pat = Inl e \<Longrightarrow>
   search_in_file eng w p pat = False"
  by (simp add: search_in_file_def hybrid_search_in_file_def)

lemma check_file_absorbs:
  "check_try eng w p nr cp c = Inl e \<Longrightarrow> is_OSError e \<Longrightarrow>
   check_file eng w p nr cp c = Inr None"
  by (simp add: check_file_def)

lemma check_file_no_os_error:
  "check_file eng w p nr cp c = Inl e \<Longrightarrow> \<not> is_OSError e"
  by (auto simp add: check_file_def split: sum.splits if_splits)

lemma check_file_stat_fault:
  assumes "os_stat w p = Inl e" and "is_OSError e"
    and "name_check w c nr (os_path_basename w p) = Inr b"
  shows "check_file eng w p nr cp c = Inr None"
  using assms by (cases b) (simp_all add: check_file_def check_try_def Let_def)

lemma check_file_content_false:
  assumes "search_in_file eng w p pat = False"
  shows "check_file eng w p nr (Some pat) c \<noteq> Inr (Some r)"
  using assms unfolding check_file_Some_iff check_try_Some_iff by simp

lemma search_returns:
  "compile_patterns w c content_regex = Inr pats \<Longrightarrow>
   \<exists>events results. search eng w sch root_path c content_regex callback = (events, Inr results)"
  by (cases pats) (simp add: search_unfold)

lemma collect_skips_failure:
  "\<forall>n. \<not> stop_in_loop sch n \<Longrightarrow>
   fst (collect sch callback tot k (xs @ Inl e # ys))
     = fst (collect sch callback tot k (xs @ ys))"
  by (simp add: collect_results results_of_def)

lemma concat_map_without:
  "f p = [] \<Longrightarrow> concat (map f xs) = concat (map f (filter (\<lambda>q. q \<noteq> p) xs))"
  by (induction xs) auto

lemma search_results_general:
  assumes "compile_patterns w c content_regex = Inr (cp, nr)"
  shows "snd (search eng w sch root_path c content_regex callback) =
     Inr (concat (map (\<lambda>q. results_of (worker_result eng w sch c nr cp q))
            (take (collected sch 0 (length (as_completed sch (walked_files w root_path))))
               (as_completed sch (walked_files w root_path)))))"
proof -
  have "(\<lambda>file_path.
           check_file (eng\<lparr>stop_flag := stop_in_worker sch file_path\<rparr>) w file_path nr cp
             (c\<lparr>extensions := normalize_extensions w (extensions c)\<rparr>))
          = worker_result eng w sch c nr cp"
    by (rule ext) (simp add: worker_result_def)
  then have "snd (search eng w sch root_path c content_regex callback) =
     Inr (fst (collect sch callback (length (walked_files w root_path)) 0
                (map (worker_result eng w sch c nr cp)
                   (as_completed sch (walked_files w root_path)))))"
    unfolding search_unfold[OF assms] by simp
  then show ?thesis
    unfolding collect_results_general by (simp add: take_map comp_def)
qed

lemma search_skips_faulty:
  assumes "compile_patterns w c content_regex = Inr (cp, nr)"
    and "\<forall>r. worker_result eng w sch c nr cp p \<noteq> Inr (Some r)"
  shows "snd (search eng w sch root_path c content_regex callback) =
     Inr (concat (map (\<lambda>q. results_of (worker_result eng w sch c nr cp q))
            (filter (\<lambda>q. q \<noteq> p)
               (take (collected sch 0 (length (as_completed sch (walked_files w root_path))))
                  (as_completed sch (walked_files w root_path))))))"
proof -
  have "results_of (worker_result eng w sch c nr cp p) = []"
    using assms(2) by (auto simp add: results_of_def split: sum.splits option.splits)
  then have "concat (map (\<lambda>q. results_of (worker_result eng w sch c nr cp q)) xs)
      = concat (map (\<lambda>q. results_of (worker_result eng w sch c nr cp q))
          (filter (\<lambda>q. q \<noteq> p) xs))" for xs
    by (rule concat_map_without)
  then show ?thesis
    unfolding search_results_general[OF assms(1)] by simp
qed

lemma search_skips_faulty_all:
  assumes "compile_patterns w c content_regex = Inr (cp, nr)"
    and "\<forall>r. worker_result eng w sch c nr cp p \<noteq> Inr (Some r)"
    and "\<forall>n. \<not> stop_in_loop sch n"
  shows "snd (search eng w sch root_path c content_regex callback) =
     Inr (concat (map (\<lambda>q. results_of (worker_result eng w sch c nr cp q))
            (filter (\<lambda>q. q \<noteq> p) (as_completed sch (walked_files w root_path)))))"
  unfolding search_skips_faulty[OF assms(1,2)] collected_all[OF assms(3)] by simp

text \<open>
  C3. A fault of one file never leaves the search. In \<open>_search_in_file\<close> every exception
  becomes \<open>False\<close>: a failing \<open>getsize\<close> or \<open>open\<close>, and any exception that escapes the CPU
  scan or the GPU engine (a failing \<open>mmap\<close>, a decode error). In \<open>_check_file\<close> an
  \<open>OSError\<close> (with \<open>PermissionError\<close> and \<open>FileNotFoundError\<close>) raised by any step gives
  \<open>None\<close>, as a failing \<open>os.stat\<close> does, and a content scan that gave \<open>False\<close> gives no
  result; \<open>_check_file\<close> never raises an \<open>OSError\<close>. Whatever a worker returned or raised,
  \<open>search\<close> returns a list once the patterns compiled, and a future that raised changes
  nothing in the results collected from the others. When the worker of a file \<open>p\<close> gives no
  result (it returned \<open>None\<close> or raised), the list \<open>search\<close> returns is made of the results
  of the other files, in completion order: of all the others as long as the collecting
  loop does not see the stop flag, and otherwise of those among the completions collected
  before it did.
\<close>

theorem file_faults_are_absorbed:
  "(os_path_getsize w p = Inl e \<longrightarrow> search_in_file eng w p pat = False)
   \<and> (open_rb w p = Inl e \<longrightarrow> search_in_file eng w p pat = False)
   \<and> (\<not> use_gpu eng \<and> cpu_scan eng w p pat = Inl e \<longrightarrow> search_in_file eng w p pat = False)
   \<and> (use_gpu eng \<and> gpu_engine eng = Some h \<and> hybrid_try h w p pat = Inl e \<longrightarrow>
        search_in_file eng w p pat = False)
   \<and> (check_try eng w p nr cp c = Inl e \<and> is_OSError e \<longrightarrow>
        check_file eng w p nr cp c = Inr None)
   \<and> (os_stat w p = Inl e \<and> is_OSError e \<and> name_check w c nr (os_path_basename w p) = Inr b
        \<longrightarrow> check_file eng w p nr cp c = Inr None)
   \<and> (check_file eng w p nr cp c = Inl e \<longrightarrow> \<not> is_OSError e)
   \<and> (search_in_file eng w p pat = False \<longrightarrow>
        check_file eng w p nr (Some pat) c \<noteq> Inr (Some r))
   \<and> (compile_patterns w c content_regex = Inr pats \<longrightarrow>
        (\<exists>events results.
           search eng w sch root_path c content_regex callback = (events, Inr results)))
   \<and> ((\<forall>n. \<not> stop_in_loop sch n) \<longrightarrow>
        fst (collect sch callback tot k (xs @ Inl e # ys))
          = fst (collect sch callback tot k (xs @ ys)))
   \<and> (compile_patterns w c content_regex = Inr (cp, nr)
       \<and> (\<forall>r. worker_result eng w sch c nr cp p \<noteq> Inr (Some r)) \<longrightarrow>
        snd (search eng w sch root_path c content_regex callback) =
          Inr (concat (map (\<lambda>q. results_of (worker_result eng w sch c nr cp q))
                 (filter (\<lambda>q. q \<noteq> p)
                    (take (collected sch 0
                             (length (as_completed sch (walked_files w root_path))))
                       (as_completed sch (walked_files w root_path)))))))
   \<and> (compile_patterns w c content_regex = Inr (cp, nr)
       \<and> (\<forall>r. worker_result eng w sch c nr cp p \<noteq> Inr (Some r))
       \<and> (\<forall>n. \<not> stop_in_loop sch n) \<longrightarrow>
        snd (search eng w sch root_path c content_regex callback) =
          Inr (concat (map (\<lambda>q. results_of (worker_result eng w sch c nr cp q))
                 (filter (\<lambda>q. q \<noteq> p) (as_completed sch (walked_files w root_path))))))"
proof -
  have c1: "os_path_getsize w p = Inl e \<longrightarrow> search_in_file eng w p pat = False"
    using search_in_file_absorbs(1)[of w p e eng pat] by blast
  have c2: "open_rb w p = Inl e \<longrightarrow> search_in_file eng w p pat = False"
    using search_in_file_absorbs(2)[of w p e eng pat] by blast
  have c3: "\<not> use_gpu eng \<and> cpu_scan eng w p pat = Inl e \<longrightarrow>
              search_in_file eng w p pat = False"
    using search_in_file_absorbs_scan[of eng w p pat e] by blast
  have c4: "use_gpu eng \<and> gpu_engine eng = Some h \<and> hybrid_try h w p pat = Inl e \<longrightarrow>
        search_in_file eng w p pat = False"
    using search_in_file_absorbs_hybrid[of eng h w p pat e] by blast
  have c5: "check_try eng w p nr cp c = Inl e \<and> is_OSError e \<longrightarrow>
        check_file eng w p nr cp c = Inr None"
    using check_file_absorbs[of eng w p nr cp c e] by blast
  have c6: "os_stat w p = Inl e \<and> is_OSError e
              \<and> name_check w c nr (os_path_basename w p) = Inr b
        \<longrightarrow> check_file eng w p nr cp c = Inr None"
    using check_file_stat_fault[of w p e c nr b eng cp] by blast
  have c7: "check_file eng w p nr cp c = Inl e \<longrightarrow> \<not> is_OSError e"
    using check_file_no_os_error[of eng w p nr cp c e] by blast
  have c8: "search_in_file eng w p pat = False \<longrightarrow>
        check_file eng w p nr (Some pat) c \<noteq> Inr (Some r)"
    using check_file_content_false[of eng w p pat nr c r] by blast
  have c9: "compile_patterns w c content_regex = Inr pats \<longrightarrow>
        (\<exists>events results.
           search eng w sch root_path c content_regex callback = (events, Inr results))"
    using search_returns[of w c content_regex pats eng sch root_path callback] by blast
  have c10: "(\<forall>n. \<not> stop_in_loop sch n) \<longrightarrow>
        fst (collect sch callback tot k (xs @ Inl e # ys))
          = fst (collect sch callback tot k (xs @ ys))"
    using collect_skips_failure[of sch callback tot k xs e ys] by blast
  have c11: "compile_patterns w c content_regex = Inr (cp, nr)
       \<and> (\<forall>r. worker_result eng w sch c nr cp p \<noteq> Inr (Some r)) \<longrightarrow>
        snd (search eng w sch root_path c content_regex callback) =
          Inr (concat (map (\<lambda>q. results_of (worker_result eng w sch c nr cp q))
                 (filter (\<lambda>q. q \<noteq> p)
                    (take (collected sch 0
                             (length (as_completed sch (walked_files w root_path))))
                       (as_completed sch (walked_files w root_path))))))"
    using search_skips_faulty[of w c content_regex cp nr eng sch p root_path callback]
    by blast
  have c12: "compile_patterns w c content_regex = Inr (cp, nr)
       \<and> (\<forall>r. worker_result eng w sch c nr cp p \<noteq> Inr (Some r))
       \<and> (\<forall>n. \<not> stop_in_loop sch n) \<longrightarrow>
        snd (search eng w sch root_path c content_regex callback) =
          Inr (concat (map (\<lambda>q. results_of (worker_result eng w sch c nr cp q))
                 (filter (\<lambda>q. q \<noteq> p) (as_completed sch (walked_files w root_path)))))"
    using search_skips_faulty_all[of w c content_regex cp nr eng sch p root_path callback]
    by blast
  show ?thesis
    using c1 c2 c3 c4 c5 c6 c7 c8 c9 c10 c11 c12 by (intro conjI)
qed

theorem file_faults_are_absorbed_witness:
  "os_stat locked_world (str ''a.txt'') = Inl PermissionError
   \<and> is_OSError PermissionError
   \<and> name_check locked_world any_file None (os_path_basename locked_world (str ''a.txt''))
       = Inr True
   \<and> check_file cpu_engine locked_world (str ''a.txt'') None None any_file = Inr None
   \<and> os_stat two_file_world (str ''a.txt'') = Inl PermissionError
   \<and> worker_result cpu_engine two_file_world in_order any_file None None (str ''a.txt'')
       = Inr None
   \<and> worker_result cpu_engine two_file_world in_order any_file None None (str ''b.txt'')
       = Inr (Some b_result)
   \<and> snd (search cpu_engine two_file_world in_order (str ''/tmp'') any_file None True)
       = Inr [b_result]"
proof -
  have a: "os_stat locked_world (str ''a.txt'') = Inl PermissionError"
    by (simp add: locked_world_def)
  have b: "name_check locked_world any_file None
             (os_path_basename locked_world (str ''a.txt'')) = Inr True"
    by (simp add: name_check_def any_file_def)
  have c: "check_file cpu_engine locked_world (str ''a.txt'') None None any_file = Inr None"
    using a b file_faults_are_absorbed[of locked_world "str ''a.txt''" PermissionError
        cpu_engine _ _ None None any_file True]
    by simp
  have d: "os_stat two_file_world (str ''a.txt'') = Inl PermissionError"
    by (simp add: two_file_world_def)
  have e: "worker_result cpu_engine two_file_world in_order any_file None None (str ''a.txt'')
       = Inr None"
    by (simp add: worker_result_def check_file_def check_try_def cpu_engine_def
          two_file_world_def one_file_world_def any_file_def in_order_def name_check_def
          ext_check_def normalize_extensions_def)
  have f: "worker_result cpu_engine two_file_world in_order any_file None None (str ''b.txt'')
       = Inr (Some b_result)"
    by (simp add: worker_result_def check_file_def check_try_def cpu_engine_def
          two_file_world_def one_file_world_def any_file_def in_order_def name_check_def
          ext_check_def size_check_def date_check_def normalize_extensions_def b_result_def
          str_def)
  have comp: "compile_patterns two_file_world any_file None = Inr (None, None)"
    by (simp add: compile_patterns_def any_file_def)
  have none: "\<forall>r. worker_result cpu_engine two_file_world in_order any_file None None
                    (str ''a.txt'') \<noteq> Inr (Some r)"
    unfolding e by simp
  have free: "\<forall>n. \<not> stop_in_loop in_order n"
    by (simp add: in_order_def)
  have files: "filter (\<lambda>q. q \<noteq> str ''a.txt'')
                 (as_completed in_order (walked_files two_file_world (str ''/tmp'')))
               = [str ''b.txt'']"
    by (simp add: in_order_def two_file_world_def str_def)
  have "compile_patterns two_file_world any_file None = Inr (None, None)
       \<and> (\<forall>r. worker_result cpu_engine two_file_world in_order any_file None None
                 (str ''a.txt'') \<noteq> Inr (Some r))
       \<and> (\<forall>n. \<not> stop_in_loop in_order n) \<longrightarrow>
        snd (search cpu_engine two_file_world in_order (str ''/tmp'') any_file None True) =
          Inr (concat (map (\<lambda>q. results_of
                   (worker_result cpu_engine two_file_world in_order any_file None None q))
                 (filter (\<lambda>q. q \<noteq> str ''a.txt'')
                    (as_completed in_order (walked_files two_file_world (str ''/tmp''))))))"
    by (rule file_faults_are_absorbed[of two_file_world "str ''a.txt''" _ cpu_engine _ _
          None None any_file _ _ None _ in_order "str ''/tmp''" True,
          THEN conjunct2, THEN conjunct2, THEN conjunct2, THEN conjunct2, THEN conjunct2,
          THEN conjunct2, THEN conjunct2, THEN conjunct2, THEN conjunct2, THEN conjunct2,
          THEN conjunct2])
  then have "snd (search cpu_engine two_file_world in_order (str ''/tmp'') any_file None True) =
          Inr (concat (map (\<lambda>q. results_of
                   (worker_result cpu_engine two_file_world in_order any_file None None q))
                 (filter (\<lambda>q. q \<noteq> str ''a.txt'')
                    (as_completed in_order (walked_files two_file_world (str ''/tmp''))))))"
    using comp none free by blast
  then have g: "snd (search cpu_engine two_file_world in_order (str ''/tmp'') any_file None True)
       = Inr [b_result]"
    unfolding files by (simp add: f results_of_def)
  show ?thesis
    using a b c d e f g by (intro conjI) simp_all
qed

section \<open>Tiers of the CPU scan\<close>


lemma cpu_scan_full:
  assumes "os_path_getsize w p = Inr (length data)" and "open_rb w p = Inr data"
    and "0 \<notin> set (take 8192 data)" and "8192 \<le> length data"
    and "length data \<le> safe_full_read_threshold pat" and "\<not> stop_flag eng"
  shows "cpu_scan eng w p pat
           = Inr ([Applied 0 (length data)], search_or_false pat (decode_ignore data))"
proof -
  have big: "\<not> 104857600 < length data"
    using assms(5) by (simp add: safe_full_read_threshold_def split: if_splits)
  have chunk: "\<not> length (take 8192 data) < 8192"
    using assms(4) by simp
  show ?thesis
  proof (cases "is_dangerous_pattern pat")
    case True
    then have "length data \<le> 1048576"
      using assms(5) by (simp add: safe_full_read_threshold_def)
    then show ?thesis
      using assms(1,2,3,6) big chunk True by (simp add: cpu_scan_def Let_def)
  next
    case False
    then have "length data \<le> 5242880"
      using assms(5) by (simp add: safe_full_read_threshold_def)
    then show ?thesis
      using assms(1,2,3,6) big chunk False by (simp add: cpu_scan_def Let_def)
  qed
qed

lemma cpu_scan_chunked:
  assumes "os_path_getsize w p = Inr (length data)" and "open_rb w p = Inr data"
    and "mmap_file w p = None"
    and "0 \<notin> set (take 8192 data)"
    and "safe_full_read_threshold pat < length data" and "length data \<le> 104857600"
  shows "cpu_scan eng w p pat
           = Inr (chunk_loop eng pat data (length data) (scan_chunk_size pat)
                    (py_range (length data) (scan_chunk_size pat)))"
proof -
  have big: "\<not> 104857600 < length data"
    using assms(6) by simp
  have "8192 \<le> length data"
    using assms(5) by (simp add: safe_full_read_threshold_def split: if_splits)
  then have chunk: "\<not> length (take 8192 data) < 8192"
    by simp
  show ?thesis
  proof (cases "is_dangerous_pattern pat")
    case True
    then have "\<not> length data \<le> 1048576"
      using assms(5) by (simp add: safe_full_read_threshold_def)
    then show ?thesis
      using assms(1,2,3,4) big chunk True
      by (simp add: cpu_scan_def Let_def scan_chunk_size_def)
  next
    case False
    then have "\<not> length data \<le> 5242880"
      using assms(5) by (simp add: safe_full_read_threshold_def)
    then show ?thesis
      using assms(1,2,3,4) big chunk False
      by (simp add: cpu_scan_def Let_def scan_chunk_size_def)
  qed
qed

lemma chunk_loop_step:
  assumes "\<not> stop_flag eng"
  shows "chunk_loop eng pat mm fs cs (offset # rest) =
     (if re_search pat (decode_ignore (py_slice mm (offset - 1024) (min fs (offset + cs))))
           = Inr True
      then ([Applied (offset - 1024) (min fs (offset + cs))], True)
      else (Applied (offset - 1024) (min fs (offset + cs))
              # fst (chunk_loop eng pat mm fs cs rest),
            snd (chunk_loop eng pat mm fs cs rest)))"
proof -
  have "nat (max 0 (int offset - int 1024)) = offset - 1024" by simp
  then show ?thesis
    using assms
    by (cases "re_search pat (decode_ignore (py_slice mm (offset - 1024) (min fs (offset + cs))))")
       (auto simp add: Let_def split: prod.splits bool.splits)
qed

lemma chunk_loop_events:
  assumes "\<not> stop_flag eng"
  shows "\<exists>m. fst (chunk_loop eng pat mm fs cs (map (\<lambda>k. k * cs) [j..<n]))
                = map (chunk_event fs cs) [j..<j + m]
             \<and> m \<le> n - j \<and> (j < n \<longrightarrow> 1 \<le> m)
             \<and> (\<not> snd (chunk_loop eng pat mm fs cs (map (\<lambda>k. k * cs) [j..<n]))
                  \<longrightarrow> m = n - j)"
proof (induction "n - j" arbitrary: j)
  case 0
  then show ?case by simp
next
  case (Suc d)
  then have lt: "j < n" and d: "d = n - Suc j" by simp_all
  have list: "map (\<lambda>k. k * cs) [j..<n] = j * cs # map (\<lambda>k. k * cs) [Suc j..<n]"
    using lt by (simp add: upt_rec[of j])
  have step: "chunk_loop eng pat mm fs cs (map (\<lambda>k. k * cs) [j..<n]) =
     (if re_search pat (decode_ignore (py_slice mm (j * cs - 1024) (min fs (j * cs + cs))))
           = Inr True
      then ([chunk_event fs cs j], True)
      else (chunk_event fs cs j
              # fst (chunk_loop eng pat mm fs cs (map (\<lambda>k. k * cs) [Suc j..<n])),
            snd (chunk_loop eng pat mm fs cs (map (\<lambda>k. k * cs) [Suc j..<n]))))"
    unfolding list chunk_event_def by (rule chunk_loop_step[OF assms])
  show ?case
  proof (cases "re_search pat
      (decode_ignore (py_slice mm (j * cs - 1024) (min fs (j * cs + cs)))) = Inr True")
    case True
    have one: "[j..<j + 1] = [j]" by simp
    have "fst (chunk_loop eng pat mm fs cs (map (\<lambda>k. k * cs) [j..<n]))
                 = map (chunk_event fs cs) [j..<j + 1]"
          and "snd (chunk_loop eng pat mm fs cs (map (\<lambda>k. k * cs) [j..<n]))"
      unfolding step one using True by simp_all
    then show ?thesis using lt by (intro exI[of _ 1]) simp
  next
    case False
    obtain m where m: "fst (chunk_loop eng pat mm fs cs (map (\<lambda>k. k * cs) [Suc j..<n]))
                = map (chunk_event fs cs) [Suc j..<Suc j + m]"
        "m \<le> n - Suc j"
        "\<not> snd (chunk_loop eng pat mm fs cs (map (\<lambda>k. k * cs) [Suc j..<n]))
           \<longrightarrow> m = n - Suc j"
      using Suc.hyps(1)[OF d] by blast
    have more: "[j..<j + Suc m] = j # [Suc j..<Suc j + m]"
      using upt_rec[of j "j + Suc m"] by simp
    have "fst (chunk_loop eng pat mm fs cs (map (\<lambda>k. k * cs) [j..<n]))
            = map (chunk_event fs cs) [j..<j + Suc m]"
      unfolding step more using False m(1) by simp
    moreover have "snd (chunk_loop eng pat mm fs cs (map (\<lambda>k. k * cs) [j..<n]))
            = snd (chunk_loop eng pat mm fs cs (map (\<lambda>k. k * cs) [Suc j..<n]))"
      unfolding step using False by simp
    ultimately show ?thesis using m(2,3) lt by (intro exI[of _ "Suc m"]) auto
  qed
qed

lemma chunk_not_larger: "scan_chunk_size pat \<le> safe_full_read_threshold pat"
  by (cases "is_dangerous_pattern pat")
     (simp_all add: scan_chunk_size_def safe_full_read_threshold_def)

lemma chunk_positive: "0 < scan_chunk_size pat"
  by (cases "is_dangerous_pattern pat") (simp_all add: scan_chunk_size_def)

lemma cpu_scan_chunk_events:
  assumes "\<not> stop_flag eng"
    and "os_path_getsize w p = Inr (length data)" and "open_rb w p = Inr data"
    and "mmap_file w p = None"
    and "0 \<notin> set (take 8192 data)"
    and "safe_full_read_threshold pat < length data" and "length data \<le> 104857600"
  shows "\<exists>m found. cpu_scan eng w p pat
           = Inr (map (chunk_event (length data) (scan_chunk_size pat)) [0..<m], found)
         \<and> 1 \<le> m
         \<and> m \<le> (length data + scan_chunk_size pat - 1) div scan_chunk_size pat
         \<and> (\<not> found \<longrightarrow>
              m = (length data + scan_chunk_size pat - 1) div scan_chunk_size pat)"
proof -
  define cs where "cs = scan_chunk_size pat"
  define n where "n = (length data + cs - 1) div cs"
  define run where "run = chunk_loop eng pat data (length data) cs (map (\<lambda>k. k * cs) [0..<n])"
  have scan: "cpu_scan eng w p pat = Inr run"
    using cpu_scan_chunked[OF assms(2,3,4,5,6,7), of eng]
    by (simp add: py_range_def run_def n_def cs_def)
  have "cs \<le> length data + cs - 1"
    using assms(6) chunk_not_larger[of pat] by (simp add: cs_def)
  then have "cs div cs \<le> n"
    unfolding n_def by (rule div_le_mono)
  moreover have "0 < cs"
    using chunk_positive[of pat] by (simp add: cs_def)
  ultimately have pos: "0 < n"
    by simp
  have "\<exists>m. fst run = map (chunk_event (length data) cs) [0..<0 + m]
           \<and> m \<le> n - 0 \<and> (0 < n \<longrightarrow> 1 \<le> m) \<and> (\<not> snd run \<longrightarrow> m = n - 0)"
    unfolding run_def by (rule chunk_loop_events[OF assms(1)])
  then obtain m where all: "fst run = map (chunk_event (length data) cs) [0..<0 + m]
           \<and> m \<le> n - 0 \<and> (0 < n \<longrightarrow> 1 \<le> m) \<and> (\<not> snd run \<longrightarrow> m = n - 0)" ..
  have e1: "cpu_scan eng w p pat = Inr (map (chunk_event (length data) cs) [0..<m], snd run)"
    using scan all by (simp add: prod_eq_iff)
  have e2: "1 \<le> m" and e3: "m \<le> n" and e4: "\<not> snd run \<longrightarrow> m = n"
    using all pos by simp_all
  have "\<exists>m found. cpu_scan eng w p pat = Inr (map (chunk_event (length data) cs) [0..<m], found)
         \<and> 1 \<le> m \<and> m \<le> n \<and> (\<not> found \<longrightarrow> m = n)"
    using e1 e2 e3 e4 by (intro exI[of _ m] exI[of _ "snd run"] conjI)
  then show ?thesis
    unfolding n_def cs_def .
qed




section \<open>Lenient decoding\<close>

lemma decode_between_ascii:
  assumes "\<forall>b\<in>set xs. b < 0x80" and "\<forall>b\<in>set ys. b < 0x80"
  shows "decode_ignore (xs @ zs @ ys) = map unat xs @ decode_ignore zs @ map unat ys"
proof -
  have tail: "decode_from 0 ys = map unat ys"
    using decode_ascii[OF assms(2)] by (simp add: decode_ignore_def)
  have "ys = [] \<or> \<not> is_cont (hd ys)"
    using assms(2) ascii_not_cont by (cases ys) auto
  then have "decode_from 0 (zs @ ys) = decode_from 0 zs @ decode_from 0 ys"
    using decode_from_append[of ys 0 zs] by simp
  then show ?thesis
    using decode_from_ascii_append[OF assms(1), of "zs @ ys"] tail
    by (simp add: decode_ignore_def)
qed

lemma cpu_scan_small:
  assumes "os_path_getsize w p = Inr (length data)" and "open_rb w p = Inr data"
    and "0 \<notin> set data" and "length data < 8192"
  shows "cpu_scan eng w p pat
           = Inr ([Applied 0 (length data)], search_or_false pat (decode_ignore data))"
  using assms by (simp add: cpu_scan_def Let_def)

lemma cpu_scan_whole:
  assumes "os_path_getsize w p = Inr (length data)" and "open_rb w p = Inr data"
    and "0 \<notin> set (take 8192 data)"
    and "length data \<le> safe_full_read_threshold pat" and "\<not> stop_flag eng"
  shows "cpu_scan eng w p pat
           = Inr ([Applied 0 (length data)], search_or_false pat (decode_ignore data))"
proof (cases "length data < 8192")
  case True
  then show ?thesis
    using cpu_scan_small[OF assms(1,2) _ True, of eng pat] assms(3) by simp
next
  case False
  then have "8192 \<le> length data"
    by simp
  then show ?thesis
    by (rule cpu_scan_full[OF assms(1,2,3) _ assms(4,5)])
qed

text \<open>
  C8, as the code has it. Decoding uses \<open>errors='ignore'\<close>: it never fails, and bytes that
  hold no well-formed UTF-8 sequence are dropped, not replaced. For a file read in one
  pass (no larger than the safe full-read threshold) made of an ASCII fragment, such
  bytes, and another ASCII fragment, the text the pattern is applied to is the two
  fragments joined with nothing in between, so the content scan answers what the pattern
  answers on that concatenation.
\<close>

theorem invalid_bytes_are_dropped:
  assumes "\<forall>b\<in>set xs. b < 0x80" and "\<forall>b\<in>set ys. b < 0x80"
    and "decode_ignore zs = []"
    and "data = xs @ zs @ ys"
    and "os_path_getsize w p = Inr (length data)" and "open_rb w p = Inr data"
    and "0 \<notin> set (take 8192 data)"
    and "length data \<le> safe_full_read_threshold pat"
    and "\<not> stop_flag eng" and "\<not> use_gpu eng"
  shows "decode_ignore data = map unat xs @ map unat ys
         \<and> cpu_scan eng w p pat
             = Inr ([Applied 0 (length data)], search_or_false pat (map unat xs @ map unat ys))
         \<and> search_in_file eng w p pat = search_or_false pat (map unat xs @ map unat ys)"
proof -
  have a: "decode_ignore data = map unat xs @ map unat ys"
    using decode_between_ascii[OF assms(1,2), of zs] assms(3,4) by simp
  have b: "cpu_scan eng w p pat
             = Inr ([Applied 0 (length data)], search_or_false pat (map unat xs @ map unat ys))"
    using cpu_scan_whole[OF assms(5,6,7,8,9)] a by simp
  show ?thesis
    using a b assms(9,10) by (simp add: search_in_file_def)
qed

theorem invalid_bytes_are_dropped_witness:
  "list_all (\<lambda>b. b < 0x80) (ascii ''ab'') \<and> list_all (\<lambda>b. b < 0x80) (ascii ''cd'')
   \<and> decode_ignore [0xFF] = []
   \<and> broken_utf8 = ascii ''ab'' @ [0xFF] @ ascii ''cd''
   \<and> length broken_utf8 \<le> safe_full_read_threshold (literal_pattern (str ''abcd''))
   \<and> 0 \<notin> set (take 8192 broken_utf8)
   \<and> search_in_file cpu_engine (one_file_world broken_utf8) (str ''a.txt'')
        (literal_pattern (str ''abcd''))
      = search_or_false (literal_pattern (str ''abcd''))
          (map unat (ascii ''ab'') @ map unat (ascii ''cd''))"
proof -
  have a: "\<forall>b\<in>set (ascii ''ab''). b < 0x80" "\<forall>b\<in>set (ascii ''cd''). b < 0x80"
    by (simp_all add: ascii_def)
  have b: "decode_ignore [0xFF] = []"
    by (simp add: decode_ignore_def)
  have c: "broken_utf8 = ascii ''ab'' @ [0xFF] @ ascii ''cd''"
    by (simp add: broken_utf8_def)
  have d: "os_path_getsize (one_file_world broken_utf8) (str ''a.txt'')
             = Inr (length broken_utf8)"
          "open_rb (one_file_world broken_utf8) (str ''a.txt'') = Inr broken_utf8"
    by (simp_all add: one_file_world_def)
  have e: "0 \<notin> set (take 8192 broken_utf8)"
    by (simp add: broken_utf8_def ascii_def)
  have "\<not> is_dangerous_pattern (literal_pattern (str ''abcd''))"
    by (simp add: is_dangerous_pattern_def literal_pattern_def dangerous_def str_def
          backslash_def sublist_Cons_right prefix_Cons)
  then have g: "length broken_utf8 \<le> safe_full_read_threshold (literal_pattern (str ''abcd''))"
    by (simp add: safe_full_read_threshold_def broken_utf8_def ascii_def)
  have f: "\<not> stop_flag cpu_engine" "\<not> use_gpu cpu_engine"
    by (simp_all add: cpu_engine_def)
  have a': "list_all (\<lambda>b. b < 0x80) (ascii ''ab'')" "list_all (\<lambda>b. b < 0x80) (ascii ''cd'')"
    by (simp_all add: ascii_def)
  show ?thesis
    using a' b c e g invalid_bytes_are_dropped[OF a b c d e g f]
    by blast
qed

text \<open>
  The invalid byte between \<open>ab\<close> and \<open>cd\<close> is deleted, and the pattern \<open>abcd\<close> matches the
  file only because it was.
\<close>

theorem dropped_byte_counterexample:
  "decode_ignore broken_utf8 = str ''abcd''
   \<and> search_in_file cpu_engine (one_file_world broken_utf8) (str ''a.txt'')
        (literal_pattern (str ''abcd'')) = True"
proof -
  have a: "decode_ignore broken_utf8 = str ''abcd''"
    by (simp add: decode_ignore_def broken_utf8_def ascii_def str_def)
  have d: "os_path_getsize (one_file_world broken_utf8) (str ''a.txt'')
             = Inr (length broken_utf8)"
          "open_rb (one_file_world broken_utf8) (str ''a.txt'') = Inr broken_utf8"
    by (simp_all add: one_file_world_def)
  have e: "0 \<notin> set broken_utf8" "length broken_utf8 < 8192"
    by (simp_all add: broken_utf8_def ascii_def)
  have "cpu_scan cpu_engine (one_file_world broken_utf8) (str ''a.txt'')
          (literal_pattern (str ''abcd''))
        = Inr ([Applied 0 (length broken_utf8)], True)"
    using cpu_scan_small[OF d e, of cpu_engine "literal_pattern (str ''abcd'')"] a
    by (simp add: search_or_false_def literal_pattern_def)
  then show ?thesis
    using a by (simp add: search_in_file_def cpu_engine_def)
qed

section \<open>The overlap at chunk boundaries\<close>

lemma chunk_loop_finds:
  assumes "\<not> stop_flag eng"
    and "offset \<in> set offsets"
    and "re_search pat (decode_ignore (py_slice mm (offset - 1024) (min fs (offset + cs))))
           = Inr True"
  shows "snd (chunk_loop eng pat mm fs cs offsets)"
  using assms(2)
proof (induction offsets)
  case Nil
  then show ?case by simp
next
  case (Cons x rest)
  show ?case
  proof (cases "re_search pat (decode_ignore (py_slice mm (x - 1024) (min fs (x + cs))))
                  = Inr True")
    case True
    then show ?thesis
      unfolding chunk_loop_step[OF assms(1)] by simp
  next
    case False
    then have "offset \<noteq> x"
      using assms(3) by auto
    then have "offset \<in> set rest"
      using Cons.prems by simp
    then have "snd (chunk_loop eng pat mm fs cs rest)"
      by (rule Cons.IH)
    then show ?thesis
      unfolding chunk_loop_step[OF assms(1)] using False by simp
  qed
qed

lemma py_slice_append:
  assumes "s \<le> a" and "a \<le> e"
  shows "py_slice xs s e = py_slice xs s a @ py_slice xs a e"
proof -
  have "e - s = (a - s) + (e - a)"
    using assms by simp
  then have "take (e - s) (drop s xs)
               = take (a - s) (drop s xs) @ take (e - a) (drop (a - s) (drop s xs))"
    by (simp add: take_add)
  moreover have "drop (a - s) (drop s xs) = drop a xs"
    using assms(1) by simp
  ultimately show ?thesis
    by (simp add: py_slice_def)
qed

lemma py_slice_split:
  assumes "s \<le> a" and "a \<le> b" and "b \<le> e"
  shows "py_slice xs s e = py_slice xs s a @ py_slice xs a b @ py_slice xs b e"
proof -
  have "a \<le> e"
    using assms(2,3) by simp
  then have "py_slice xs s e = py_slice xs s a @ py_slice xs a e"
    using assms(1) by (rule py_slice_append[rotated])
  then show ?thesis
    using py_slice_append[OF assms(2,3), of xs] by simp
qed

lemma in_py_range:
  assumes "0 < cs" and "k * cs < fs"
  shows "k * cs \<in> set (py_range fs cs)"
proof -
  have "Suc k * cs \<le> fs + cs - 1"
    using assms by simp
  then have "Suc k \<le> (fs + cs - 1) div cs"
    using assms(1) by (simp only: less_eq_div_iff_mult_less_eq)
  then have "k \<in> set [0..<(fs + cs - 1) div cs]"
    by simp
  then have "(\<lambda>k. k * cs) k \<in> (\<lambda>k. k * cs) ` set [0..<(fs + cs - 1) div cs]"
    by (rule imageI)
  then show ?thesis
    by (simp only: py_range_def set_map)
qed

text \<open>
  C6, as the code has it. In the chunked scan every chunk starts 1024 bytes before its
  nominal offset \<open>k * chunk_size\<close> (the first at 0). Take a readable file without a NUL
  byte in its first 8 KiB, above the full-read threshold and at most 100 MiB, scanned on
  the CPU while the stop flag is not set, and bytes \<open>[a, b)\<close> of it that lie within chunk
  \<open>k\<close> with its overlap prefix, \<open>k * chunk_size - 1024 \<le> a\<close> and
  \<open>b \<le> min(file_size, (k + 1) * chunk_size)\<close>, so that they may straddle the boundary
  \<open>k * chunk_size\<close>. If the pattern finds those bytes whatever stands around them, the scan
  returns true, and its trace consists of overlapped chunks.
\<close>

theorem overlap_keeps_boundary_matches:
  assumes "\<not> stop_flag eng" and "\<not> use_gpu eng"
    and "os_path_getsize w p = Inr (length data)" and "open_rb w p = Inr data"
    and "mmap_file w p = None"
    and "0 \<notin> set (take 8192 data)"
    and "safe_full_read_threshold pat < length data" and "length data \<le> 100 * 1024 * 1024"
    and "k * scan_chunk_size pat < length data"
    and "k * scan_chunk_size pat - 1024 \<le> a" and "a \<le> b"
    and "b \<le> min (length data) (k * scan_chunk_size pat + scan_chunk_size pat)"
    and "\<forall>pre post. re_search pat (decode_ignore (pre @ py_slice data a b @ post)) = Inr True"
  shows "search_in_file eng w p pat = True
         \<and> (\<exists>m. cpu_scan eng w p pat
                  = Inr (map (chunk_event (length data) (scan_chunk_size pat)) [0..<m], True))"
proof -
  define cs where "cs = scan_chunk_size pat"
  define s where "s = k * cs - 1024"
  define e where "e = min (length data) (k * cs + cs)"
  have size: "length data \<le> 104857600"
    using assms(8) by simp
  have pos: "0 < cs"
    unfolding cs_def by (rule chunk_positive)
  have scan: "cpu_scan eng w p pat
                = Inr (chunk_loop eng pat data (length data) cs (py_range (length data) cs))"
    unfolding cs_def by (rule cpu_scan_chunked[OF assms(3,4,5,6,7) size])
  have mem: "k * cs \<in> set (py_range (length data) cs)"
    using pos assms(9) unfolding cs_def by (rule in_py_range)
  have "py_slice data s e = py_slice data s a @ py_slice data a b @ py_slice data b e"
    using assms(10,11,12) unfolding s_def e_def cs_def by (rule py_slice_split)
  moreover have "re_search pat
                   (decode_ignore (py_slice data s a @ py_slice data a b @ py_slice data b e))
                 = Inr True"
    using assms(13) by blast
  ultimately have hit: "re_search pat (decode_ignore (py_slice data s e)) = Inr True"
    by simp
  have found: "snd (chunk_loop eng pat data (length data) cs (py_range (length data) cs))"
    using assms(1) mem hit[unfolded s_def e_def] by (rule chunk_loop_finds)
  have "\<exists>m found. cpu_scan eng w p pat
           = Inr (map (chunk_event (length data) (scan_chunk_size pat)) [0..<m], found)
         \<and> 1 \<le> m
         \<and> m \<le> (length data + scan_chunk_size pat - 1) div scan_chunk_size pat
         \<and> (\<not> found \<longrightarrow>
              m = (length data + scan_chunk_size pat - 1) div scan_chunk_size pat)"
    by (rule cpu_scan_chunk_events[OF assms(1,3,4,5,6,7) size])
  then obtain m f where m: "cpu_scan eng w p pat
           = Inr (map (chunk_event (length data) (scan_chunk_size pat)) [0..<m], f)"
    by blast
  have f: "f"
    using found m scan by simp
  have "search_in_file eng w p pat = True"
    using assms(1,2) f by (simp add: search_in_file_def m)
  moreover have "\<exists>m. cpu_scan eng w p pat
                  = Inr (map (chunk_event (length data) (scan_chunk_size pat)) [0..<m], True)"
    using m f by auto
  ultimately show ?thesis
    by (rule conjI)
qed

theorem overlap_keeps_boundary_matches_witness:
  "scan_chunk_size (literal_pattern (str ''hello'')) = 5242880
   \<and> py_slice boundary_file (5242880 - 2) (5242880 + 3) = ascii ''hello''
   \<and> safe_full_read_threshold (literal_pattern (str ''hello'')) < length boundary_file
   \<and> search_in_file cpu_engine (one_file_world boundary_file) (str ''a.txt'')
        (literal_pattern (str ''hello'')) = True
   \<and> (\<exists>m. cpu_scan cpu_engine (one_file_world boundary_file) (str ''a.txt'')
               (literal_pattern (str ''hello''))
             = Inr (map (chunk_event (length boundary_file)
                       (scan_chunk_size (literal_pattern (str ''hello'')))) [0..<m], True))"
proof -
  let ?pat = "literal_pattern (str ''hello'')"
  have safe: "\<not> is_dangerous_pattern ?pat"
    by (simp add: is_dangerous_pattern_def literal_pattern_def dangerous_def str_def
          backslash_def sublist_Cons_right prefix_Cons)
  have cs: "scan_chunk_size ?pat = 5242880"
    using safe by (simp add: scan_chunk_size_def)
  have len: "length boundary_file = 5242883"
    by (simp add: boundary_file_def ascii_def)
  have a: "\<not> stop_flag cpu_engine" "\<not> use_gpu cpu_engine"
    by (simp_all add: cpu_engine_def)
  have b: "os_path_getsize (one_file_world boundary_file) (str ''a.txt'')
             = Inr (length boundary_file)"
    "open_rb (one_file_world boundary_file) (str ''a.txt'') = Inr boundary_file"
    "mmap_file (one_file_world boundary_file) (str ''a.txt'') = None"
    by (simp_all add: one_file_world_def)
  have c: "0 \<notin> set (take 8192 boundary_file)"
    by (simp add: boundary_file_def)
  have d: "safe_full_read_threshold ?pat < length boundary_file"
    using safe by (simp add: safe_full_read_threshold_def len)
  have e: "length boundary_file \<le> 100 * 1024 * 1024"
    by (simp add: len)
  have f: "1 * scan_chunk_size ?pat < length boundary_file"
    "1 * scan_chunk_size ?pat - 1024 \<le> 5242878" "(5242878::nat) \<le> 5242883"
    "5242883 \<le> min (length boundary_file) (1 * scan_chunk_size ?pat + scan_chunk_size ?pat)"
    by (simp_all add: cs len)
  have slice: "py_slice boundary_file 5242878 5242883 = ascii ''hello''"
    by (simp add: py_slice_def boundary_file_def ascii_def)
  have "sublist (map unat (ascii ''hello'')) (decode_ignore (pre @ ascii ''hello'' @ post))"
    for pre post
    by (rule decode_keeps_ascii) (simp add: ascii_def)
  then have g: "\<forall>pre post. re_search ?pat
                  (decode_ignore (pre @ py_slice boundary_file 5242878 5242883 @ post))
                = Inr True"
    by (simp add: slice literal_pattern_def str_def ascii_def)
  show ?thesis
    using cs slice d overlap_keeps_boundary_matches[OF a b c d e f g]
    by simp
qed

text \<open>
  The file above and the pattern \<open>(?<=a{1100})hello\<close>. Matched against the whole file, the
  pattern finds \<open>hello\<close> at the byte offsets \<open>chunk_size - 2\<close> to \<open>chunk_size + 2\<close>. The scan
  returns false: the first chunk ends after \<open>he\<close>, and the second begins 1024 bytes before
  the boundary, which leaves 1022 of the 1100 letters the lookbehind asks for.
\<close>

theorem lookbehind_counterexample:
  "search_or_false lookbehind_pattern (decode_ignore boundary_file) = True
   \<and> scan_chunk_size lookbehind_pattern = 5242880
   \<and> py_slice boundary_file (5242880 - 2) (5242880 + 3) = ascii ''hello''
   \<and> safe_full_read_threshold lookbehind_pattern < length boundary_file
   \<and> cpu_scan cpu_engine (one_file_world boundary_file) (str ''a.txt'') lookbehind_pattern
      = Inr ([Applied 0 5242880, Applied (5242880 - 1024) 5242883], False)
   \<and> search_in_file cpu_engine (one_file_world boundary_file) (str ''a.txt'')
        lookbehind_pattern = False"
proof -
  let ?pat = "lookbehind_pattern"
  let ?needle = "replicate 1100 97 @ str ''hello''"
  have safe: "\<not> is_dangerous_pattern ?pat"
    by (simp add: is_dangerous_pattern_def lookbehind_pattern_def dangerous_def str_def
          backslash_def sublist_Cons_right prefix_Cons)
  have cs: "scan_chunk_size ?pat = 5242880"
    using safe by (simp add: scan_chunk_size_def)
  have len: "length boundary_file = 5242883"
    by (simp add: boundary_file_def ascii_def)
  have stop: "\<not> stop_flag cpu_engine"
    by (simp add: cpu_engine_def)
  have b: "os_path_getsize (one_file_world boundary_file) (str ''a.txt'')
             = Inr (length boundary_file)"
    "open_rb (one_file_world boundary_file) (str ''a.txt'') = Inr boundary_file"
    "mmap_file (one_file_world boundary_file) (str ''a.txt'') = None"
    by (simp_all add: one_file_world_def)
  have c: "0 \<notin> set (take 8192 boundary_file)"
    by (simp add: boundary_file_def)
  have d: "safe_full_read_threshold ?pat < length boundary_file"
    using safe by (simp add: safe_full_read_threshold_def len)
  have e: "length boundary_file \<le> 104857600"
    by (simp add: len)
  have slice: "py_slice boundary_file (5242880 - 2) (5242880 + 3) = ascii ''hello''"
    by (simp add: py_slice_def boundary_file_def ascii_def)
  have "\<forall>b\<in>set boundary_file. b < 0x80"
    by (simp add: boundary_file_def ascii_def)
  then have "decode_ignore boundary_file = map unat boundary_file"
    by (rule decode_ascii)
  also have "\<dots> = replicate 5241778 97 @ ?needle @ []"
    by (simp add: boundary_file_def ascii_def str_def replicate_add[symmetric])
  finally have "sublist ?needle (decode_ignore boundary_file)"
    unfolding sublist_def by blast
  then have whole: "search_or_false ?pat (decode_ignore boundary_file) = True"
    by (simp add: search_or_false_def lookbehind_pattern_def)
  have first: "py_slice boundary_file (0 - 1024) (min 5242883 (0 + 5242880))
                 = replicate 5242878 0x61 @ ascii ''he''"
    by (simp add: py_slice_def boundary_file_def ascii_def)
  have "\<forall>b\<in>set (replicate 5242878 0x61 @ ascii ''he''). b < (0x80::byte)"
    by (simp add: ascii_def)
  then have "decode_ignore (replicate 5242878 0x61 @ ascii ''he'')
               = map unat (replicate 5242878 0x61 @ ascii ''he'')"
    by (rule decode_ascii)
  then have "108 \<notin> set (decode_ignore (replicate 5242878 0x61 @ ascii ''he''))"
    by (simp add: ascii_def)
  moreover have "108 \<in> set ?needle"
    by (simp add: str_def)
  ultimately have "\<not> sublist ?needle (decode_ignore (replicate 5242878 0x61 @ ascii ''he''))"
    using set_mono_sublist by blast
  then have miss0: "re_search ?pat
                      (decode_ignore (py_slice boundary_file (0 - 1024)
                         (min 5242883 (0 + 5242880)))) \<noteq> Inr True"
    unfolding first by (simp add: lookbehind_pattern_def)
  have second: "py_slice boundary_file (5242880 - 1024) (min 5242883 (5242880 + 5242880))
                  = replicate 1022 0x61 @ ascii ''hello''"
    by (simp add: py_slice_def boundary_file_def ascii_def)
  have "\<forall>b\<in>set (replicate 1022 0x61 @ ascii ''hello''). b < (0x80::byte)"
    by (simp add: ascii_def)
  then have "decode_ignore (replicate 1022 0x61 @ ascii ''hello'')
               = map unat (replicate 1022 0x61 @ ascii ''hello'')"
    by (rule decode_ascii)
  then have "length (decode_ignore (replicate 1022 0x61 @ ascii ''hello'')) < length ?needle"
    by (simp add: ascii_def str_def)
  then have "\<not> sublist ?needle (decode_ignore (replicate 1022 0x61 @ ascii ''hello''))"
    using sublist_length_le by fastforce
  then have miss1: "re_search ?pat
                      (decode_ignore (py_slice boundary_file (5242880 - 1024)
                         (min 5242883 (5242880 + 5242880)))) \<noteq> Inr True"
    unfolding second by (simp add: lookbehind_pattern_def)
  have range: "py_range 5242883 5242880 = [0, 5242880]"
    by (simp add: py_range_def upt_rec)
  have loop: "chunk_loop cpu_engine ?pat boundary_file 5242883 5242880 [0, 5242880]
          = ([Applied 0 5242880, Applied (5242880 - 1024) 5242883], False)"
    unfolding chunk_loop_step[OF stop] using miss0 miss1 by simp
  have scan: "cpu_scan cpu_engine (one_file_world boundary_file) (str ''a.txt'') ?pat
                = Inr ([Applied 0 5242880, Applied (5242880 - 1024) 5242883], False)"
    using cpu_scan_chunked[OF b c d e, of cpu_engine] loop by (simp add: cs len range)
  have "\<not> use_gpu cpu_engine"
    by (simp add: cpu_engine_def)
  then have "search_in_file cpu_engine (one_file_world boundary_file) (str ''a.txt'') ?pat
               = False"
    using stop by (simp add: search_in_file_def scan)
  then show ?thesis
    using whole cs slice d scan by simp
qed

section \<open>The GPU engine's fallback\<close>






end
